theory Spec2Isabelle
  imports Main "HOL-Library.AList" "HOL-Library.Sublist" "HOL-Library.Word"
    "HOL-Library.Char_ord" "HOL-Library.List_Lexorder"
begin

section \<open>Values, files and exceptions\<close>

text \<open>
  The two notebooks (the MRS pipeline notebook and the NIRISS AMI notebook) are
  sequences of cells that call external libraries on files of the working directory.
  A run of a cell is modelled as a function from the file system to a result, the file
  system afterwards, and the list of the calls the cell made, in order.

  A Python float is carried through the notebooks unchanged (the coordinates written to
  the headers), so it is represented by its 64 bits.
\<close>

type_synonym path = string

datatype pyval = PyBool bool | PyStr string | PyInt int | PyFloat "64 word"

type_synonym header = "(string \<times> pyval) list"

record hdu =
  hdu_name :: string
  hdu_header :: header
  hdu_data :: string

datatype node = Dir | Blob string | Fits "hdu list"

text \<open>
  The working directory: relative path names with their contents, in directory order
  (the order \<open>glob\<close> lists them in).
\<close>

type_synonym fs = "(path \<times> node) list"

datatype exn =
    ValueError
  | KeyError string
  | IndexError
  | FileNotFoundError path
  | OSError path
  | Raised string

text \<open>
  \<open>./name\<close> and \<open>name\<close> are the same file, and \<open>name/\<close> is \<open>name\<close> as a
  directory.
\<close>

definition normpath :: "path \<Rightarrow> path" where
  "normpath p =
     (let q = (if prefix ''./'' p then drop 2 p else p)
      in if q \<noteq> [] \<and> last q = CHR ''/'' then butlast q else q)"

definition lookup :: "fs \<Rightarrow> path \<Rightarrow> node option" where
  "lookup fs p = map_of fs (normpath p)"

definition write_file :: "fs \<Rightarrow> path \<Rightarrow> node \<Rightarrow> fs" where
  "write_file fs p f = AList.update (normpath p) f fs"

text \<open>\<open>os.path.exists\<close>: a path written with a trailing slash exists only as a directory.\<close>

definition os_path_exists :: "fs \<Rightarrow> path \<Rightarrow> bool" where
  "os_path_exists fs p =
     (case lookup fs p of
        None \<Rightarrow> False
      | Some f \<Rightarrow> (p \<noteq> [] \<and> last p = CHR ''/'') \<longrightarrow> f = Dir)"

section \<open>External calls and the log of a run\<close>

datatype stage = Detector1Pipeline | Image2Pipeline | Spec2Pipeline | Spec3Pipeline

text \<open>
  A pipeline object is the list of the attributes the notebook has assigned on it;
  an attribute the notebook never assigns keeps the library's default.
\<close>

type_synonym config = "(string \<times> pyval) list"

definition setattr :: "string \<Rightarrow> pyval \<Rightarrow> config \<Rightarrow> config" where
  "setattr k v obj = AList.update k v obj"

record fringe_job =
  fj_filter :: pyval
  fj_usebp :: bool
  fj_firstfew :: "int option"
  fj_oitdir :: path
  fj_oifdir :: path
  fj_oversample :: int
  fj_input :: path

datatype call =
    UrlRetrieve string path
  | TarExtractAll path
  | ZipExtractAll path
  | PipelineRun stage config path
  | DetectSource path
  | AsnFromList "path list" string
  | CorrectFitsfiles path path
  | FitFringes fringe_job
  | CalibrateOifits path path path
  | Mkdir path
  | FitsWriteTo path
  | FileWrite path
  | FitsSetval path string pyval

datatype outcome = Returned | Raises exn

type_synonym event = "call \<times> outcome"

datatype fetch_result = Fetched string | FetchFailed exn "string option"

text \<open>
  What the libraries do is not in the notebooks: it is a parameter of every cell.
  An external call may change any file and may raise after changing files; a download
  answers with the body, or fails, possibly after part of the body has been written.
\<close>

record world =
  fetch :: "string \<Rightarrow> fetch_result"
  tar_extractall :: "path \<Rightarrow> fs \<Rightarrow> exn option \<times> fs"
  zip_extractall :: "path \<Rightarrow> fs \<Rightarrow> exn option \<times> fs"
  pipeline_run :: "stage \<Rightarrow> config \<Rightarrow> path \<Rightarrow> fs \<Rightarrow> exn option \<times> fs"
  detect_source :: "path \<Rightarrow> fs \<Rightarrow> exn + (64 word \<times> 64 word)"
  asn_from_list :: "path list \<Rightarrow> string \<Rightarrow> exn + string"
  correct_fitsfiles :: "path \<Rightarrow> path \<Rightarrow> fs \<Rightarrow> exn option \<times> fs"
  fit_fringes :: "fringe_job \<Rightarrow> fs \<Rightarrow> exn option \<times> fs"
  calibrate_oifits :: "path \<Rightarrow> path \<Rightarrow> path \<Rightarrow> fs \<Rightarrow> exn option \<times> fs"
  display :: "nat \<Rightarrow> fs \<Rightarrow> exn option"

type_synonym 'a run = "(exn + 'a) \<times> fs \<times> event list"

type_synonym 'a prog = "fs \<Rightarrow> 'a run"

definition res :: "'a run \<Rightarrow> exn + 'a" where
  "res r = fst r"

definition disk :: "'a run \<Rightarrow> fs" where
  "disk r = fst (snd r)"

definition log :: "'a run \<Rightarrow> event list" where
  "log r = snd (snd r)"

definition ret :: "'a \<Rightarrow> 'a prog" where
  "ret a fs = (Inr a, fs, [])"

definition raise :: "exn \<Rightarrow> 'a prog" where
  "raise e fs = (Inl e, fs, [])"

text \<open>Sequencing: an exception ends the run where it is raised; nothing catches it.\<close>

definition bind :: "'a prog \<Rightarrow> ('a \<Rightarrow> 'b prog) \<Rightarrow> 'b prog" where
  "bind m f fs =
     (case m fs of
        (Inl e, fs', t) \<Rightarrow> (Inl e, fs', t)
      | (Inr a, fs', t) \<Rightarrow> (case f a fs' of (r, fs'', t') \<Rightarrow> (r, fs'', t @ t')))"

definition seq :: "unit prog \<Rightarrow> 'b prog \<Rightarrow> 'b prog" where
  "seq m n = bind m (\<lambda>_. n)"

definition extern :: "call \<Rightarrow> (fs \<Rightarrow> exn option \<times> fs) \<Rightarrow> unit prog" where
  "extern c f fs =
     (case f fs of
        (None, fs') \<Rightarrow> (Inr (), fs', [(c, Returned)])
      | (Some e, fs') \<Rightarrow> (Inl e, fs', [(c, Raises e)]))"

text \<open>\<^verbatim>\<open>for x in xs: body\<close>: the body runs on each element in order, until one raises.\<close>

fun for_each :: "'a list \<Rightarrow> ('a \<Rightarrow> unit prog) \<Rightarrow> unit prog" where
  "for_each [] body = ret ()"
| "for_each (x # xs) body = seq (body x) (for_each xs body)"

text \<open>\<open>urllib.request.urlretrieve(url, dest)\<close> writes the destination file only.\<close>

definition urlretrieve :: "world \<Rightarrow> string \<Rightarrow> path \<Rightarrow> unit prog" where
  "urlretrieve w url dest fs =
     (case fetch w url of
        Fetched body \<Rightarrow>
          (Inr (), write_file fs dest (Blob body), [(UrlRetrieve url dest, Returned)])
      | FetchFailed e part \<Rightarrow>
          (Inl e,
           (case part of None \<Rightarrow> fs | Some body \<Rightarrow> write_file fs dest (Blob body)),
           [(UrlRetrieve url dest, Raises e)]))"

section \<open>The download cells\<close>

definition mrs_url :: "string \<Rightarrow> string" where
  "mrs_url name =
     ''https://data.science.stsci.edu/redirect/JWST/jwst-data_analysis_tools/MRS_Mstar_analysis/''
       @ name"

text \<open>
  One block of the MRS download cell:
  \<^verbatim>\<open>if os.path.exists(NAME): print(NAME + " Exists")
else: urllib.request.urlretrieve(URL, './' + NAME)\<close>
\<close>

definition download_block :: "world \<Rightarrow> string \<Rightarrow> unit prog" where
  "download_block w name fs =
     (if os_path_exists fs name then ret () fs
      else urlretrieve w (mrs_url name) (''./'' @ name) fs)"


definition mrs_download_cell :: "world \<Rightarrow> unit prog" where
  "mrs_download_cell w =
     seq (download_block w ''20210413_120546_mirisim.tar.gz'')
    (seq (download_block w ''20210413_123047_mirisim.tar.gz'')
         (download_block w ''20210413_125354_mirisim.tar.gz''))"

definition boxlink :: string where
  "boxlink =
     ''https://data.science.stsci.edu/redirect/JWST/jwst-data_analysis_tools/niriss_ami_binary/niriss_ami_binary2_inflight.zip''"

text \<open>\<open>Path('./niriss_ami_binary2_inflight.zip')\<close>, as \<open>pathlib\<close> prints it.\<close>

definition boxfile :: path where
  "boxfile = ''niriss_ami_binary2_inflight.zip''"

text \<open>
  The NIRISS download cell: the archive is unpacked inside the branch that downloads it.
\<close>

definition niriss_download_cell :: "world \<Rightarrow> unit prog" where
  "niriss_download_cell w fs =
     (if \<not> os_path_exists fs boxfile
      then seq (urlretrieve w boxlink boxfile)
               (extern (ZipExtractAll boxfile) (zip_extractall w boxfile)) fs
      else ret () fs)"


definition extractions :: "event list \<Rightarrow> event list" where
  "extractions t =
     filter (\<lambda>ev. case fst ev of ZipExtractAll p \<Rightarrow> True | TarExtractAll p \<Rightarrow> True | _ \<Rightarrow> False) t"


section \<open>Python strings\<close>

text \<open>
  \<open>s.split(sep)\<close>: the fields between the occurrences of \<open>sep\<close>, found from the left
  without overlap. \<open>cur\<close> is the field being read.
\<close>

function split_from :: "string \<Rightarrow> string \<Rightarrow> string \<Rightarrow> string list" where
  "split_from sep cur [] = [cur]"
| "split_from sep cur (c # cs) =
     (if sep \<noteq> [] \<and> prefix sep (c # cs)
      then cur # split_from sep [] (drop (length sep) (c # cs))
      else split_from sep (cur @ [c]) cs)"
  by pat_completeness auto
termination
  by (relation "measure (\<lambda>(sep, cur, s). length s)") auto

definition py_split :: "string \<Rightarrow> string \<Rightarrow> exn + string list" where
  "py_split s sep = (if sep = [] then Inl ValueError else Inr (split_from sep [] s))"

text \<open>\<^verbatim>\<open>a, b = parts\<close>: ValueError unless there are exactly two parts.\<close>

definition unpack2 :: "exn + string list \<Rightarrow> exn + string \<times> string" where
  "unpack2 r =
     (case r of
        Inl e \<Rightarrow> Inl e
      | Inr [a, b] \<Rightarrow> Inr (a, b)
      | Inr _ \<Rightarrow> Inl ValueError)"

text \<open>\<open>s.replace(old, new)\<close>: every occurrence of \<open>old\<close>, from the left without overlap.\<close>

function py_replace :: "string \<Rightarrow> string \<Rightarrow> string \<Rightarrow> string" where
  "py_replace [] old new = (if old = [] then new else [])"
| "py_replace (c # cs) old new =
     (if old = [] then new @ c # py_replace cs old new
      else if prefix old (c # cs) then new @ py_replace (drop (length old) (c # cs)) old new
      else c # py_replace cs old new)"
  by pat_completeness auto
termination
  by (relation "measure (\<lambda>(s, old, new). length s)") auto

text \<open>The number of positions of a string at which \<open>sep\<close> starts.\<close>

fun occurrences :: "string \<Rightarrow> string \<Rightarrow> nat" where
  "occurrences sep [] = 0"
| "occurrences sep (c # cs) = (if prefix sep (c # cs) then 1 else 0) + occurrences sep cs"

text \<open>No end of \<open>sep\<close> is a beginning of it: two occurrences of \<open>sep\<close> cannot overlap.\<close>

definition borderless :: "string \<Rightarrow> bool" where
  "borderless sep =
     (sep \<noteq> [] \<and> list_all (\<lambda>i. \<not> prefix (drop i sep) sep) [1..<length sep])"

fun join :: "string \<Rightarrow> string list \<Rightarrow> string" where
  "join sep [] = []"
| "join sep [x] = x"
| "join sep (x # y # ys) = x @ sep @ join sep (y # ys)"

text \<open>The last component of a path (\<open>Path.name\<close>) and \<open>dir / name\<close>.\<close>

definition basename :: "path \<Rightarrow> string" where
  "basename p = rev (takeWhile (\<lambda>c. c \<noteq> CHR ''/'') (rev p))"

definition in_dir :: "path \<Rightarrow> string \<Rightarrow> path" where
  "in_dir d name = d @ ''/'' @ name"

section \<open>Globbing\<close>

text \<open>
  The notebooks' patterns use \<open>*\<close> only. A star matches any run of characters of one
  path component; at the start of a component it does not match a leading dot.
  The flag says whether the match stands at the start of a component.
\<close>

fun glob_match :: "bool \<Rightarrow> string \<Rightarrow> string \<Rightarrow> bool" where
  "glob_match st [] s = (s = [])"
| "glob_match st (p # ps) [] = (p = CHR ''*'' \<and> glob_match False ps [])"
| "glob_match st (p # ps) (c # cs) =
     (if p = CHR ''*''
      then (if c = CHR ''/'' then glob_match False ps (c # cs)
            else if st \<and> c = CHR ''.'' then False
            else glob_match False ps (c # cs) \<or> glob_match False (p # ps) cs)
      else c = p \<and> glob_match (p = CHR ''/'') ps cs)"

definition glob :: "fs \<Rightarrow> string \<Rightarrow> path list" where
  "glob fs pat = filter (glob_match True pat) (map fst fs)"

section \<open>FITS files\<close>

definition fits_open :: "path \<Rightarrow> hdu list prog" where
  "fits_open p fs =
     (case lookup fs p of
        None \<Rightarrow> (Inl (FileNotFoundError p), fs, [])
      | Some (Fits hdus) \<Rightarrow> (Inr hdus, fs, [])
      | Some _ \<Rightarrow> (Inl (OSError p), fs, []))"

text \<open>\<open>hdul[name]\<close>: the first HDU of that name, KeyError when there is none.\<close>

fun index_of :: "hdu list \<Rightarrow> string \<Rightarrow> nat option" where
  "index_of [] name = None"
| "index_of (h # hs) name =
     (if hdu_name h = name then Some 0 else map_option Suc (index_of hs name))"

definition header_set :: "string \<Rightarrow> pyval \<Rightarrow> hdu \<Rightarrow> hdu" where
  "header_set k v h = h\<lparr>hdu_header := AList.update k v (hdu_header h)\<rparr>"

text \<open>\<^verbatim>\<open>hdul[name].header[k] = v\<close> and \<^verbatim>\<open>hdul[i].header[k] = v\<close>, on the list in memory.\<close>

definition set_by_name :: "hdu list \<Rightarrow> string \<Rightarrow> string \<Rightarrow> pyval \<Rightarrow> exn + hdu list" where
  "set_by_name hdus name k v =
     (case index_of hdus name of
        None \<Rightarrow> Inl (KeyError name)
      | Some i \<Rightarrow> Inr (hdus[i := header_set k v (hdus ! i)]))"

definition set_by_index :: "hdu list \<Rightarrow> nat \<Rightarrow> string \<Rightarrow> pyval \<Rightarrow> exn + hdu list" where
  "set_by_index hdus i k v =
     (if i < length hdus then Inr (hdus[i := header_set k v (hdus ! i)]) else Inl IndexError)"

definition header_get :: "header \<Rightarrow> string \<Rightarrow> exn + pyval" where
  "header_get hdr k = (case map_of hdr k of None \<Rightarrow> Inl (KeyError k) | Some v \<Rightarrow> Inr v)"

text \<open>\<open>hdul.writeto(p, overwrite=True)\<close>: the notebook's own write of a FITS file.\<close>

definition fits_writeto :: "path \<Rightarrow> hdu list \<Rightarrow> unit prog" where
  "fits_writeto p hdus fs = (Inr (), write_file fs p (Fits hdus), [(FitsWriteTo p, Returned)])"

text \<open>\<open>fits.getheader(p)\<close>: the header of the primary HDU.\<close>

definition fits_getheader :: "path \<Rightarrow> header prog" where
  "fits_getheader p =
     bind (fits_open p)
       (\<lambda>hdus. case hdus of [] \<Rightarrow> raise IndexError | h # hs \<Rightarrow> ret (hdu_header h))"

text \<open>\<open>fits.setval(p, k, value=v)\<close>: the keyword of the primary header, changed in the file.\<close>

definition fits_setval :: "path \<Rightarrow> string \<Rightarrow> pyval \<Rightarrow> unit prog" where
  "fits_setval p k v =
     bind (fits_open p)
       (\<lambda>hdus. case set_by_index hdus 0 k v of
                  Inl e \<Rightarrow> raise e
                | Inr hdus' \<Rightarrow>
                    (\<lambda>fs. (Inr (), write_file fs p (Fits hdus'), [(FitsSetval p k v, Returned)])))"

section \<open>The MRS notebook\<close>

definition run_stage :: "world \<Rightarrow> stage \<Rightarrow> config \<Rightarrow> path \<Rightarrow> unit prog" where
  "run_stage w st cfg f = extern (PipelineRun st cfg f) (pipeline_run w st cfg f)"

text \<open>
  One block of the cell that unpacks the archives:
  \<^verbatim>\<open>if os.path.exists(STEM + "/"): print(STEM + " Exists")
else: tar = tarfile.open('./' + STEM + '.tar.gz', "r:gz"); tar.extractall(); tar.close()\<close>
\<close>

definition untar_block :: "world \<Rightarrow> string \<Rightarrow> unit prog" where
  "untar_block w stem fs =
     (if os_path_exists fs (stem @ ''/'') then ret () fs
      else extern (TarExtractAll (''./'' @ stem @ ''.tar.gz''))
             (tar_extractall w (''./'' @ stem @ ''.tar.gz'')) fs)"

definition mrs_untar_cell :: "world \<Rightarrow> unit prog" where
  "mrs_untar_cell w =
     seq (untar_block w ''20210413_120546_mirisim'')
    (seq (untar_block w ''20210413_123047_mirisim'')
         (untar_block w ''20210413_125354_mirisim''))"

text \<open>
  The three unpackings at the head of a Detector1 loop body, in the source's order.
\<close>

definition parse_detector1 :: "path \<Rightarrow> exn + string \<times> string" where
  "parse_detector1 f =
     (case unpack2 (py_split f ''.'') of
        Inl e \<Rightarrow> Inl e
      | Inr (base, remainder) \<Rightarrow>
          (case unpack2 (py_split f ''20210413_'') of
             Inl e \<Rightarrow> Inl e
           | Inr (beforestuff, dateafterstuff) \<Rightarrow>
               (case unpack2 (py_split dateafterstuff ''_mirisim'') of
                  Inl e \<Rightarrow> Inl e
                | Inr (datestring, afterstuff) \<Rightarrow> Inr (base, datestring))))"

text \<open>
  The Detector1 loops (one over the MIRIFUSHORT files, one over the MIRIFULONG files, the
  same statements). The pipeline object is made before the loop and keeps its attributes
  from one file to the next.
\<close>

fun detector1_loop :: "world \<Rightarrow> config \<Rightarrow> path list \<Rightarrow> unit prog" where
  "detector1_loop w pipe1 [] = ret ()"
| "detector1_loop w pipe1 (f # files) =
     (case parse_detector1 f of
        Inl e \<Rightarrow> raise e
      | Inr (base, datestring) \<Rightarrow>
          (let pipe1' = setattr ''output_file'' (PyStr (base @ datestring))
                          (setattr ''refpix.skip'' (PyBool True) pipe1)
           in seq (run_stage w Detector1Pipeline pipe1' f) (detector1_loop w pipe1' files)))"

definition mrs_detector1_cell :: "world \<Rightarrow> unit prog" where
  "mrs_detector1_cell w fs =
     (let allshortfiles = glob fs ''20210413_*_mirisim/det_images/*MIRIFUSHORT*fits'';
          alllongfiles = glob fs ''20210413_*_mirisim/det_images/*MIRIFULONG*fits''
      in seq (detector1_loop w [] allshortfiles) (detector1_loop w [] alllongfiles) fs)"

text \<open>
  The attributes a Spec2 loop body sets on its fresh pipeline object: \<open>cube_build.skip\<close>
  is left alone for the one file name \<open>keep\<close> and set for every other file.
\<close>

definition spec2_config :: "string \<Rightarrow> path \<Rightarrow> string \<Rightarrow> config" where
  "spec2_config keep f base =
     setattr ''output_file'' (PyStr base)
       (setattr ''extract_1d.skip'' (PyBool True)
          ((if f = keep then (\<lambda>p. p) else setattr ''cube_build.skip'' (PyBool True))
             (setattr ''straylight.skip'' (PyBool True) [])))"

definition spec2_body :: "world \<Rightarrow> string \<Rightarrow> path \<Rightarrow> unit prog" where
  "spec2_body w keep f =
     (case unpack2 (py_split f ''.'') of
        Inl e \<Rightarrow> raise e
      | Inr (base, remainder) \<Rightarrow> run_stage w Spec2Pipeline (spec2_config keep f base) f)"

definition keep_short :: string where
  "keep_short = ''det_image_seq1_MIRIFUSHORT_12LONGexp1125354_rate.fits''"

definition keep_long :: string where
  "keep_long = ''det_image_seq1_MIRIFULONG_34SHORTexp1120546_rate.fits''"

definition mrs_spec2_cell :: "world \<Rightarrow> unit prog" where
  "mrs_spec2_cell w fs =
     (let allshortfiles2 = glob fs ''det_image_*_MIRIFUSHORT_*_rate.fits'';
          alllongfiles2 = glob fs ''det_image_*_MIRIFULONG_*_rate.fits''
      in seq (for_each allshortfiles2 (spec2_body w keep_short))
             (for_each alllongfiles2 (spec2_body w keep_long)) fs)"

text \<open>
  The cell that finds the brightest point source of the short cube: a median image,
  a source finder and a coordinate transform, all floating point; it writes nothing
  and yields the two coordinates.
\<close>

definition s_cube_file :: path where
  "s_cube_file = ''det_image_seq1_MIRIFUSHORT_12LONGexp1125354_s3d.fits''"

definition mrs_detect_cell :: "world \<Rightarrow> (64 word \<times> 64 word) prog" where
  "mrs_detect_cell w fs =
     (case detect_source w s_cube_file fs of
        Inl e \<Rightarrow> (Inl e, fs, [(DetectSource s_cube_file, Raises e)])
      | Inr radec \<Rightarrow> (Inr radec, fs, [(DetectSource s_cube_file, Returned)]))"

text \<open>The header-fix loop body; \<open>fits.open\<close> reads the file, the changes are made in memory.\<close>

definition fix_headers :: "64 word \<Rightarrow> 64 word \<Rightarrow> hdu list \<Rightarrow> exn + hdu list" where
  "fix_headers targra targdec hduthis =
     (case set_by_name hduthis ''SCI'' ''SRCTYPE'' (PyStr ''POINT'') of
        Inl e \<Rightarrow> Inl e
      | Inr h1 \<Rightarrow>
          (case set_by_index h1 0 ''TARG_RA'' (PyFloat targra) of
             Inl e \<Rightarrow> Inl e
           | Inr h2 \<Rightarrow> set_by_index h2 0 ''TARG_DEC'' (PyFloat targdec)))"

definition header_fix_body :: "64 word \<Rightarrow> 64 word \<Rightarrow> path \<Rightarrow> unit prog" where
  "header_fix_body targra targdec thisfile =
     (case unpack2 (py_split thisfile ''.'') of
        Inl e \<Rightarrow> raise e
      | Inr (base, remainder) \<Rightarrow>
          bind (fits_open thisfile)
            (\<lambda>hduthis. case fix_headers targra targdec hduthis of
                          Inl e \<Rightarrow> raise e
                        | Inr fixed \<Rightarrow> fits_writeto (base @ ''_fix.'' @ remainder) fixed))"

definition mrs_header_fix_cell :: "64 word \<Rightarrow> 64 word \<Rightarrow> unit prog" where
  "mrs_header_fix_cell targra targdec fs =
     for_each (glob fs ''det_image_*_cal.fits'') (header_fix_body targra targdec) fs"

definition asnallfile :: path where
  "asnallfile = ''for_spec3_all.json''"

text \<open>
  The association cell: the library builds the association from the globbed list, and
  the notebook itself writes its text to \<open>for_spec3_all.json\<close>.
\<close>

definition mrs_asn_cell :: "world \<Rightarrow> unit prog" where
  "mrs_asn_cell w fs =
     (let file_all_list = glob fs ''det_image_*_cal_fix.fits''
      in case asn_from_list w file_all_list ''combine_dithers_all_exposures'' of
           Inl e \<Rightarrow>
             (Inl e, fs,
              [(AsnFromList file_all_list ''combine_dithers_all_exposures'', Raises e)])
         | Inr text \<Rightarrow>
             (Inr (), write_file fs asnallfile (Blob text),
              [(AsnFromList file_all_list ''combine_dithers_all_exposures'', Returned),
               (FileWrite asnallfile, Returned)]))"

definition spec3_config :: config where
  "spec3_config =
     setattr ''output_file'' (PyStr ''allspec3'')
    (setattr ''subtract_background'' (PyStr ''True'')
    (setattr ''use_source_posn'' (PyStr ''True'')
    (setattr ''combine_1d.skip'' (PyBool True)
    (setattr ''resample_spec.skip'' (PyBool True)
    (setattr ''outlier_detection.skip'' (PyBool True)
    (setattr ''mrs_imatch.skip'' (PyBool True)
    (setattr ''master_background.skip'' (PyBool True) [])))))))"

definition mrs_spec3_cell :: "world \<Rightarrow> unit prog" where
  "mrs_spec3_cell w = run_stage w Spec3Pipeline spec3_config asnallfile"

text \<open>The code cells of the MRS notebook, run from the first to the last.\<close>

definition mrs_notebook :: "world \<Rightarrow> unit prog" where
  "mrs_notebook w =
     seq (mrs_download_cell w)
    (seq (mrs_untar_cell w)
    (seq (mrs_detector1_cell w)
    (seq (mrs_spec2_cell w)
    (bind (mrs_detect_cell w)
       (\<lambda>radec. seq (mrs_header_fix_cell (fst radec) (snd radec))
                (seq (mrs_asn_cell w) (mrs_spec3_cell w)))))))"

section \<open>The NIRISS AMI notebook\<close>

definition inflightdata :: path where
  "inflightdata = ''niriss_ami_binary2_inflight''"

text \<open>\<open>datafiles = list(sorted(inflightdata.glob('jw*uncal.fits')))\<close>\<close>

definition niriss_datafiles :: "fs \<Rightarrow> path list" where
  "niriss_datafiles fs = sort (glob fs (in_dir inflightdata ''jw*uncal.fits''))"

text \<open>A cell that only reads files and draws or prints; it may raise.\<close>

definition display_cell :: "world \<Rightarrow> nat \<Rightarrow> unit prog" where
  "display_cell w n fs =
     (case display w n fs of None \<Rightarrow> (Inr (), fs, []) | Some e \<Rightarrow> (Inl e, fs, []))"

text \<open>\<open>Path('./pipeline_calibrated_data/')\<close> and \<open>Path('./pipeline_calibrated_data_corr/')\<close>.\<close>

definition outdir :: path where
  "outdir = ''pipeline_calibrated_data''"

definition datasuperdir :: path where
  "datasuperdir = ''pipeline_calibrated_data_corr''"

definition niriss_mkdir_cell :: "unit prog" where
  "niriss_mkdir_cell fs =
     (if \<not> os_path_exists fs outdir
      then (Inr (), write_file fs outdir Dir, [(Mkdir outdir, Returned)])
      else ret () fs)"

definition detector1_config :: config where
  "detector1_config =
     setattr ''output_dir'' (PyStr outdir)
    (setattr ''save_calibrated_ramp'' (PyBool True)
    (setattr ''save_results'' (PyBool True)
    (setattr ''ipc.skip'' (PyBool True) [])))"

definition image2_config :: config where
  "image2_config =
     setattr ''output_dir'' (PyStr outdir)
    (setattr ''save_results'' (PyBool True)
    (setattr ''resample.skip'' (PyBool True)
    (setattr ''photom.skip'' (PyBool True) [])))"

definition df_rate :: "path \<Rightarrow> path" where
  "df_rate df = in_dir outdir (py_replace (basename df) ''uncal'' ''rate'')"

definition df_rateints :: "path \<Rightarrow> path" where
  "df_rateints df = in_dir outdir (py_replace (basename df) ''uncal'' ''rateints'')"

text \<open>The body of the loop over \<open>datafiles\<close>: Detector1 on the file, Image2 on its two products.\<close>

definition niriss_pipeline_body :: "world \<Rightarrow> path \<Rightarrow> unit prog" where
  "niriss_pipeline_body w df =
     seq (run_stage w Detector1Pipeline detector1_config df)
    (seq (run_stage w Image2Pipeline image2_config (df_rate df))
         (run_stage w Image2Pipeline image2_config (df_rateints df)))"

definition niriss_correct_cell :: "world \<Rightarrow> unit prog" where
  "niriss_correct_cell w =
     extern (CorrectFitsfiles outdir datasuperdir) (correct_fitsfiles w outdir datasuperdir)"

definition mirdatafiles :: "string list" where
  "mirdatafiles =
     [''jw01093012001_03102_00001_nis_calints.fits'',
      ''jw01093015001_03102_00001_nis_calints.fits'']"

text \<open>
  \<open>main\<close>, which calls \<open>raw_observables\<close>: the file is opened, the FILTER keyword of its
  primary header is read, and the fringe fitter is built and run on the file.
\<close>

definition main :: "world \<Rightarrow> path \<Rightarrow> path \<Rightarrow> path \<Rightarrow> string \<Rightarrow> int \<Rightarrow> int option \<Rightarrow> bool \<Rightarrow> unit prog"
  where
  "main w fitsimdir oitdir oifdir ifn oversample firstfew usebp =
     bind (fits_getheader (in_dir fitsimdir ifn))
       (\<lambda>hdr. case header_get hdr ''FILTER'' of
                 Inl e \<Rightarrow> raise e
               | Inr flt \<Rightarrow>
                   (let job = \<lparr> fj_filter = flt, fj_usebp = usebp, fj_firstfew = firstfew,
                                fj_oitdir = oitdir, fj_oifdir = oifdir,
                                fj_oversample = oversample,
                                fj_input = in_dir fitsimdir ifn \<rparr>
                    in extern (FitFringes job) (fit_fringes w job)))"

text \<open>
  The body of the loop over \<open>mirdatafiles\<close>. The three keywords are read for printing;
  the target name without its dashes is written back to the file before the fit.
\<close>

definition implaneia_body :: "world \<Rightarrow> string \<Rightarrow> unit prog" where
  "implaneia_body w fnmir =
     bind (fits_getheader (in_dir datasuperdir fnmir))
       (\<lambda>hdr. case header_get hdr ''FILTER'' of
                 Inl e \<Rightarrow> raise e
               | Inr flt \<Rightarrow>
          (case header_get hdr ''TARGNAME'' of
                 Inl e \<Rightarrow> raise e
               | Inr tn \<Rightarrow>
          (case header_get hdr ''TARGPROP'' of
                 Inl e \<Rightarrow> raise e
               | Inr (PyStr targprop) \<Rightarrow>
                   (let catname = py_replace targprop ''-'' ''''
                    in seq (fits_setval (in_dir datasuperdir fnmir) ''TARGNAME'' (PyStr catname))
                      (seq (fits_setval (in_dir datasuperdir fnmir) ''TARGPROP'' (PyStr catname))
                           (main w datasuperdir (in_dir datasuperdir ''Saveoit'')
                              (in_dir datasuperdir ''Saveoif'') fnmir 7 (Some 5) False)))
               | Inr _ \<Rightarrow> raise (Raised ''AttributeError''))))"

definition targ_oifits :: path where
  "targ_oifits = in_dir (in_dir datasuperdir ''Saveoif'') ''jw01093012001_03102_00001_nis.oifits''"

definition cal_oifits :: path where
  "cal_oifits = in_dir (in_dir datasuperdir ''Saveoif'') ''jw01093015001_03102_00001_nis.oifits''"

definition niriss_calibrate_cell :: "world \<Rightarrow> unit prog" where
  "niriss_calibrate_cell w =
     extern (CalibrateOifits targ_oifits cal_oifits (in_dir datasuperdir ''Saveoif''))
       (calibrate_oifits w targ_oifits cal_oifits (in_dir datasuperdir ''Saveoif''))"

text \<open>
  The code cells of the NIRISS notebook, run from the first to the last. The cells that
  only display are numbered: 1 the raw exposures, 2 the pipeline products, 3 the
  corrected images, 4 the fringe-fitting products.
\<close>

definition niriss_notebook :: "world \<Rightarrow> unit prog" where
  "niriss_notebook w =
     seq (niriss_download_cell w)
    (bind (\<lambda>fs. ret (niriss_datafiles fs) fs)
       (\<lambda>datafiles.
     seq (display_cell w 1)
    (seq niriss_mkdir_cell
    (seq (for_each datafiles (niriss_pipeline_body w))
    (seq (display_cell w 2)
    (seq (niriss_correct_cell w)
    (seq (display_cell w 3)
    (seq (for_each mirdatafiles (implaneia_body w))
    (seq (display_cell w 4)
         (niriss_calibrate_cell w))))))))))"

section \<open>Reading a log\<close>

text \<open>
  The cell of the MRS notebook a call belongs to, in the order of the cells: download,
  unpacking, Detector1, Spec2, source detection, header fix, association, Spec3.
  The notebook makes no other call; those are numbered 8.
\<close>

fun mrs_phase :: "call \<Rightarrow> nat" where
  "mrs_phase (UrlRetrieve u d) = 0"
| "mrs_phase (TarExtractAll p) = 1"
| "mrs_phase (PipelineRun st cfg p) =
     (case st of Detector1Pipeline \<Rightarrow> 2 | Spec2Pipeline \<Rightarrow> 3 | Spec3Pipeline \<Rightarrow> 7
      | Image2Pipeline \<Rightarrow> 8)"
| "mrs_phase (DetectSource p) = 4"
| "mrs_phase (FitsWriteTo p) = 5"
| "mrs_phase (AsnFromList files product) = 6"
| "mrs_phase (FileWrite p) = 6"
| "mrs_phase c = 8"

text \<open>
  The same for the NIRISS notebook: download and unpacking, output directory, the
  Detector1 and Image2 runs, bad-pixel correction, fringe fitting (with the keyword
  updates of its loop), calibration.
\<close>

fun niriss_phase :: "call \<Rightarrow> nat" where
  "niriss_phase (UrlRetrieve u d) = 0"
| "niriss_phase (ZipExtractAll p) = 0"
| "niriss_phase (Mkdir p) = 1"
| "niriss_phase (PipelineRun st cfg p) = 2"
| "niriss_phase (CorrectFitsfiles i d) = 3"
| "niriss_phase (FitsSetval p k v) = 4"
| "niriss_phase (FitFringes job) = 4"
| "niriss_phase (CalibrateOifits t c d) = 5"
| "niriss_phase c = 6"

text \<open>
  A list of pipeline runs in which Image2 is only run on a product name of a file that
  Detector1 has been run on before.
\<close>

fun well_staged :: "path list \<Rightarrow> (stage \<times> path) list \<Rightarrow> bool" where
  "well_staged seen [] = True"
| "well_staged seen ((st, p) # rs) =
     (case st of
        Detector1Pipeline \<Rightarrow> well_staged (p # seen) rs
      | Image2Pipeline \<Rightarrow>
          list_ex (\<lambda>df. p = df_rate df \<or> p = df_rateints df) seen \<and> well_staged seen rs
      | _ \<Rightarrow> well_staged seen rs)"

text \<open>
  The files a notebook writes by its own statements: the MRS notebook the header-fixed
  copies and the association file, the NIRISS notebook the output directory and two
  keywords of the two files it fits.
\<close>

fun mrs_own_ok :: "call \<Rightarrow> bool" where
  "mrs_own_ok (FitsWriteTo p) = suffix ''_cal_fix.fits'' p"
| "mrs_own_ok (FileWrite p) = (p = ''for_spec3_all.json'')"
| "mrs_own_ok (Mkdir p) = False"
| "mrs_own_ok (FitsSetval p k v) = False"
| "mrs_own_ok c = True"

fun niriss_own_ok :: "call \<Rightarrow> bool" where
  "niriss_own_ok (Mkdir p) = (p = ''pipeline_calibrated_data'')"
| "niriss_own_ok (FitsSetval p k v) =
     (list_ex (\<lambda>f. p = in_dir datasuperdir f) mirdatafiles
      \<and> (k = ''TARGNAME'' \<or> k = ''TARGPROP''))"
| "niriss_own_ok (FitsWriteTo p) = False"
| "niriss_own_ok (FileWrite p) = False"
| "niriss_own_ok c = True"

text \<open>
  A run in which no exception was caught: every call before the last one returned, and
  a last call that raised is the exception the run ended with.
\<close>

definition uncaught :: "'a run \<Rightarrow> bool" where
  "uncaught r =
     (case res r of
        Inr a \<Rightarrow> list_all (\<lambda>ev. snd ev = Returned) (log r)
      | Inl e \<Rightarrow>
          list_all (\<lambda>ev. snd ev = Returned) (butlast (log r))
          \<and> (log r = [] \<or> snd (last (log r)) = Returned \<or> snd (last (log r)) = Raises e))"

definition safe :: "'a prog \<Rightarrow> bool" where
  "safe m = (\<forall>fs. uncaught (m fs))"

text \<open>The calls of a program are in the order of the phases, within given bounds.\<close>

definition staged :: "(call \<Rightarrow> nat) \<Rightarrow> nat \<Rightarrow> nat \<Rightarrow> 'a prog \<Rightarrow> bool" where
  "staged ph lo hi m =
     (\<forall>fs. sorted (map (\<lambda>ev. ph (fst ev)) (log (m fs)))
           \<and> list_all (\<lambda>ev. lo \<le> ph (fst ev) \<and> ph (fst ev) \<le> hi) (log (m fs)))"

text \<open>A program that changes the disk only when it makes a call.\<close>

definition quiet :: "'a prog \<Rightarrow> bool" where
  "quiet m = (\<forall>fs. log (m fs) = [] \<longrightarrow> disk (m fs) = fs)"



text \<open>The pipeline runs of a log, in order: the stage and the file it is run on.\<close>

fun stage_run :: "call \<Rightarrow> (stage \<times> path) option" where
  "stage_run (PipelineRun st cfg p) = Some (st, p)"
| "stage_run c = None"

definition stage_runs :: "event list \<Rightarrow> (stage \<times> path) list" where
  "stage_runs t = List.map_filter (\<lambda>ev. stage_run (fst ev)) t"

text \<open>A property of every call a program can make, from any disk.\<close>

definition every_event :: "(event \<Rightarrow> bool) \<Rightarrow> 'a prog \<Rightarrow> bool" where
  "every_event P m = (\<forall>fs. list_all P (log (m fs)))"

text \<open>The three together: what the calls are, no exception caught, no silent change.\<close>

definition orderly :: "(event \<Rightarrow> bool) \<Rightarrow> 'a prog \<Rightarrow> bool" where
  "orderly K m = (every_event K m \<and> safe m \<and> quiet m)"

section \<open>Concrete worlds and disks used to exercise the theorems\<close>

definition calm_world :: world where
  "calm_world =
     \<lparr> fetch = (\<lambda>url. Fetched ''body''),
       tar_extractall = (\<lambda>p fs. (None, fs)),
       zip_extractall = (\<lambda>p fs. (None, fs)),
       pipeline_run = (\<lambda>st cfg p fs. (None, fs)),
       detect_source = (\<lambda>p fs. Inr (1, 2)),
       asn_from_list = (\<lambda>files product. Inr ''{}''),
       correct_fitsfiles = (\<lambda>indir odir fs. (None, fs)),
       fit_fringes = (\<lambda>job fs. (None, fs)),
       calibrate_oifits = (\<lambda>targ cal oifdir fs. (None, fs)),
       display = (\<lambda>n fs. None) \<rparr>"


definition disk_zip_only :: fs where
  "disk_zip_only = [(''niriss_ami_binary2_inflight.zip'', Blob ''PK'')]"

definition disk_two_rates :: fs where
  "disk_two_rates =
     [(''det_image_seq1_MIRIFUSHORT_12LONGexp1125354_rate.fits'', Blob ''rate''),
      (''det_image_seq2_MIRIFUSHORT_12LONGexp1125354_rate.fits'', Blob ''rate'')]"

definition disk_two_raw :: fs where
  "disk_two_raw =
     [(''20210413_120546_mirisim/det_images/det_image_seq1_MIRIFUSHORT_12LONGexp1.fits'',
       Blob ''raw''),
      (''20210413_120546_mirisim/det_images/det_image_seq1_MIRIFULONG_34LONGexp1.fits'',
       Blob ''raw'')]"

definition disk_calints :: fs where
  "disk_calints =
     [(''pipeline_calibrated_data_corr/jw01093012001_03102_00001_nis_calints.fits'',
       Fits [\<lparr> hdu_name = ''PRIMARY'',
               hdu_header = [(''FILTER'', PyStr ''F480M''), (''TARGNAME'', PyStr ''UNKNOWN''),
                             (''TARGPROP'', PyStr ''AB-DOR'')],
               hdu_data = '''' \<rparr>]),
      (''pipeline_calibrated_data_corr/jw01093015001_03102_00001_nis_calints.fits'',
       Fits [\<lparr> hdu_name = ''PRIMARY'',
               hdu_header = [(''FILTER'', PyStr ''F480M''), (''TARGNAME'', PyStr ''UNKNOWN''),
                             (''TARGPROP'', PyStr ''HD-37093'')],
               hdu_data = '''' \<rparr>])]"

definition disk_cal :: fs where
  "disk_cal =
     [(''det_image_seq1_MIRIFUSHORT_12LONGexp1125354_cal.fits'',
       Fits [\<lparr> hdu_name = ''PRIMARY'', hdu_header = [(''TARG_RA'', PyFloat 7)], hdu_data = [] \<rparr>,
             \<lparr> hdu_name = ''SCI'', hdu_header = [(''SRCTYPE'', PyStr ''EXTENDED'')],
               hdu_data = ''pixels'' \<rparr>]),
      (''det_image_seq1_MIRIFUSHORT_12LONGexp1125354_cal_fix.fits'', Blob ''stale'')]"

text \<open>A world in which every Spec2 run raises, and one in which every display cell raises.\<close>

definition stormy_world :: world where
  "stormy_world =
     calm_world \<lparr> pipeline_run :=
       (\<lambda>st cfg p fs. (if st = Spec2Pipeline then Some (Raised ''CrdsError'') else None, fs)) \<rparr>"


definition disk_mrs :: fs where
  "disk_mrs = disk_two_raw @ disk_two_rates @ disk_cal"

definition disk_niriss :: fs where
  "disk_niriss =
     (''niriss_ami_binary2_inflight/jw01093012001_03102_00001_nis_uncal.fits'', Blob ''raw'')
       # disk_calints"


section \<open>Facts about runs\<close>

lemma res_ret: "res (ret a fs) = Inr a"
  by (simp add: res_def ret_def)

lemma disk_ret: "disk (ret a fs) = fs"
  by (simp add: disk_def ret_def)

lemma log_ret: "log (ret a fs) = []"
  by (simp add: log_def ret_def)

lemma log_bind:
  "log (bind m f fs) =
     log (m fs) @ (case res (m fs) of Inl e \<Rightarrow> [] | Inr a \<Rightarrow> log (f a (disk (m fs))))"
  by (simp add: log_def res_def disk_def bind_def split: prod.splits sum.splits)

lemma res_bind:
  "res (bind m f fs) =
     (case res (m fs) of Inl e \<Rightarrow> Inl e | Inr a \<Rightarrow> res (f a (disk (m fs))))"
  by (simp add: log_def res_def disk_def bind_def split: prod.splits sum.splits)

lemma disk_bind:
  "disk (bind m f fs) =
     (case res (m fs) of Inl e \<Rightarrow> disk (m fs) | Inr a \<Rightarrow> disk (f a (disk (m fs))))"
  by (simp add: log_def res_def disk_def bind_def split: prod.splits sum.splits)

lemma log_seq:
  "log (seq m n fs) =
     log (m fs) @ (case res (m fs) of Inl e \<Rightarrow> [] | Inr a \<Rightarrow> log (n (disk (m fs))))"
  by (simp add: seq_def log_bind)

lemma res_seq:
  "res (seq m n fs) = (case res (m fs) of Inl e \<Rightarrow> Inl e | Inr a \<Rightarrow> res (n (disk (m fs))))"
  by (simp add: seq_def res_bind)


section \<open>Downloads happen only for missing archives\<close>

















lemma niriss_cell_present:
  "os_path_exists fs boxfile \<Longrightarrow> niriss_download_cell w fs = (Inr (), fs, [])"
  by (simp add: niriss_download_cell_def ret_def)

lemma niriss_cell_absent_log:
  "\<not> os_path_exists fs boxfile \<Longrightarrow>
     log (niriss_download_cell w fs) =
       (case fetch w boxlink of
          Fetched body \<Rightarrow>
            [(UrlRetrieve boxlink boxfile, Returned),
             (ZipExtractAll boxfile,
              case fst (zip_extractall w boxfile (write_file fs boxfile (Blob body))) of
                None \<Rightarrow> Returned | Some e \<Rightarrow> Raises e)]
        | FetchFailed e part \<Rightarrow> [(UrlRetrieve boxlink boxfile, Raises e)])"
  by (simp add: niriss_download_cell_def seq_def bind_def urlretrieve_def extern_def log_def
      split: fetch_result.splits prod.splits option.splits)



text \<open>
  C8. In the NIRISS download cell the archive is unpacked only in the branch that has
  just downloaded it. When \<open>niriss_ami_binary2_inflight.zip\<close> exists as the cell starts,
  the cell does nothing at all (no call, no change of the disk), whatever else is or is
  not on the disk, the unpacked directory included. An unpacking is in the log exactly
  when the archive was missing and its download returned, and it is the unpacking of
  that archive.
\<close>

theorem niriss_extraction_only_after_download:
  "(os_path_exists fs boxfile \<longrightarrow> niriss_download_cell w fs = (Inr (), fs, []))
   \<and> (extractions (log (niriss_download_cell w fs)) \<noteq> [] \<longleftrightarrow>
        \<not> os_path_exists fs boxfile \<and> (\<exists>body. fetch w boxlink = Fetched body))
   \<and> (\<forall>ev \<in> set (extractions (log (niriss_download_cell w fs))).
        fst ev = ZipExtractAll boxfile
        \<and> (\<exists>out. log (niriss_download_cell w fs) = [(UrlRetrieve boxlink boxfile, Returned), (ZipExtractAll boxfile, out)]))"
proof (cases "os_path_exists fs boxfile")
  case True
  then show ?thesis by (simp add: niriss_cell_present log_def extractions_def)
next
  case False
  then show ?thesis
    by (auto simp: niriss_cell_absent_log extractions_def split: fetch_result.splits)
qed

theorem niriss_extraction_only_after_download_witness:
  "os_path_exists disk_zip_only boxfile
   \<and> lookup disk_zip_only ''niriss_ami_binary2_inflight'' = None
   \<and> niriss_download_cell calm_world disk_zip_only = (Inr (), disk_zip_only, [])
   \<and> extractions (log (niriss_download_cell calm_world disk_zip_only)) = []"
proof -
  have e: "os_path_exists disk_zip_only boxfile"
    by (simp add: disk_zip_only_def os_path_exists_def lookup_def normpath_def boxfile_def)
  have d: "lookup disk_zip_only ''niriss_ami_binary2_inflight'' = None"
    by (simp add: disk_zip_only_def lookup_def normpath_def)
  show ?thesis
    using niriss_extraction_only_after_download [of disk_zip_only calm_world] e d
    by (simp add: log_def extractions_def)
qed

section \<open>Splitting and occurrences\<close>

lemma occ_drop:
  "\<forall>i<k. \<not> prefix sep (drop i s) \<Longrightarrow> occurrences sep s = occurrences sep (drop k s)"
proof (induction s arbitrary: k)
  case Nil
  then show ?case by simp
next
  case (Cons c cs)
  show ?case
  proof (cases k)
    case 0
    then show ?thesis by simp
  next
    case (Suc k')
    have "\<not> prefix sep (c # cs)" using Cons.prems Suc by (metis drop0 zero_less_Suc)
    moreover have "\<forall>i<k'. \<not> prefix sep (drop i cs)"
      using Cons.prems Suc by (metis Suc_less_eq drop_Suc_Cons)
    ultimately show ?thesis using Cons.IH [of k'] Suc by simp
  qed
qed

lemma borderless_gap:
  assumes b: "borderless sep" and p: "prefix sep s" and i: "0 < i" "i < length sep"
  shows "\<not> prefix sep (drop i s)"
proof
  assume q: "prefix sep (drop i s)"
  from p obtain r where s: "s = sep @ r" by (auto simp: prefix_def)
  have d: "drop i s = drop i sep @ r" using s i by simp
  have "prefix (drop i sep) (drop i s)" using d by simp
  then have "prefix (drop i sep) sep"
    using q by (metis diff_le_self length_drop prefix_length_prefix)
  then show False using b i by (auto simp: borderless_def list_all_iff)
qed

lemma occurrences_skip:
  assumes b: "borderless sep" and p: "prefix sep s"
  shows "occurrences sep s = Suc (occurrences sep (drop (length sep) s))"
proof -
  from b have ne: "sep \<noteq> []" by (simp add: borderless_def)
  with p obtain c cs where s: "s = c # cs" by (cases s) auto
  have "\<forall>i<length sep - 1. \<not> prefix sep (drop i cs)"
  proof (intro allI impI)
    fix i assume "i < length sep - 1"
    then have "0 < Suc i" "Suc i < length sep" by simp_all
    from borderless_gap [OF b p this] show "\<not> prefix sep (drop i cs)" using s by simp
  qed
  then have "occurrences sep cs = occurrences sep (drop (length sep - 1) cs)"
    by (rule occ_drop)
  moreover have "drop (length sep - 1) cs = drop (length sep) s"
    using s ne by (cases sep) simp_all
  ultimately show ?thesis using s p by simp
qed

lemma length_split_from:
  "borderless sep \<Longrightarrow> length (split_from sep cur s) = Suc (occurrences sep s)"
proof (induction sep cur s rule: split_from.induct)
  case (1 sep cur)
  then show ?case by simp
next
  case (2 sep cur c cs)
  show ?case
  proof (cases "prefix sep (c # cs)")
    case True
    then show ?thesis
      using 2 occurrences_skip [of sep "c # cs"] by (simp add: borderless_def)
  next
    case False
    then show ?thesis using 2 by simp
  qed
qed

lemma split_from_nonempty: "split_from sep cur s \<noteq> []"
  by (induction sep cur s rule: split_from.induct) auto

lemma join_split_from: "join sep (split_from sep cur s) = cur @ s"
proof (induction sep cur s rule: split_from.induct)
  case (1 sep cur)
  then show ?case by simp
next
  case (2 sep cur c cs)
  show ?case
  proof (cases "sep \<noteq> [] \<and> prefix sep (c # cs)")
    case True
    then obtain r where r: "c # cs = sep @ r" by (auto simp: prefix_def)
    obtain y ys where y: "split_from sep [] (drop (length sep) (c # cs)) = y # ys"
      using split_from_nonempty by (cases "split_from sep [] (drop (length sep) (c # cs))") auto
    have d: "drop (length sep) (c # cs) = r" using r by simp
    have "join sep (y # ys) = r" using 2(1) True y d by simp
    moreover have "split_from sep cur (c # cs) = cur # y # ys" using True y by simp
    moreover have "cur @ c # cs = cur @ sep @ r" using r by simp
    ultimately show ?thesis by (simp del: split_from.simps)
  next
    case False
    then show ?thesis using 2(2) by auto
  qed
qed

lemma split_from_no_occurrence:
  "occurrences sep s = 0 \<Longrightarrow> split_from sep cur s = [cur @ s]"
  by (induction sep cur s rule: split_from.induct) (auto split: if_splits)

lemma occurrences_middle: "sep \<noteq> [] \<Longrightarrow> 1 \<le> occurrences sep (x @ sep @ y)"
  by (induction x) (cases sep; simp)+

lemma split_from_unique:
  "borderless sep \<Longrightarrow> occurrences sep (x @ sep @ y) = 1 \<Longrightarrow>
     split_from sep cur (x @ sep @ y) = [cur @ x, y]"
proof (induction x arbitrary: cur)
  case Nil
  have ne: "sep \<noteq> []" using Nil by (simp add: borderless_def)
  have "occurrences sep (sep @ y) = Suc (occurrences sep y)"
    using occurrences_skip [of sep "sep @ y"] Nil by simp
  then have "occurrences sep y = 0" using Nil by simp
  then have y: "split_from sep [] y = [y]" using split_from_no_occurrence [of sep y "[]"] by simp
  obtain c cs where c: "sep @ y = c # cs" using ne by (cases sep) auto
  have "prefix sep (c # cs)" using c by (metis prefixI)
  moreover have "drop (length sep) (c # cs) = y" using c by (metis append_eq_conv_conj)
  ultimately have "split_from sep cur (c # cs) = [cur, y]" using ne y by simp
  then show ?case using c by simp
next
  case (Cons c x)
  have ne: "sep \<noteq> []" using Cons by (simp add: borderless_def)
  have "1 \<le> occurrences sep (x @ sep @ y)" using ne by (rule occurrences_middle)
  then have np: "\<not> prefix sep (c # x @ sep @ y)" and one: "occurrences sep (x @ sep @ y) = 1"
    using Cons.prems(2) by (auto split: if_splits)
  then show ?case using Cons.IH [of "cur @ [c]"] Cons.prems(1) by simp
qed

lemma borderless_consts:
  "borderless ''.''" "borderless ''20210413_''" "borderless ''_mirisim''"
  by code_simp+

lemma unpack2_length:
  "unpack2 (Inr xs) = (if length xs = 2 then Inr (hd xs, hd (tl xs)) else Inl ValueError)"
  by (auto simp: unpack2_def split: list.splits)

lemma unpack2_not_one:
  "borderless sep \<Longrightarrow> occurrences sep s \<noteq> 1 \<Longrightarrow> unpack2 (py_split s sep) = Inl ValueError"
  using length_split_from [of sep "[]" s]
  by (simp add: py_split_def unpack2_length borderless_def)

lemma unpack2_one:
  assumes b: "borderless sep" and o: "occurrences sep s = 1"
  shows "\<exists>a b. unpack2 (py_split s sep) = Inr (a, b) \<and> s = a @ sep @ b"
proof -
  have ne: "sep \<noteq> []" using b by (simp add: borderless_def)
  have "length (split_from sep [] s) = 2" using length_split_from [OF b, of "[]" s] o by simp
  then obtain a c where ac: "split_from sep [] s = [a, c]"
    by (cases "split_from sep [] s"; simp) (metis Suc_length_conv length_0_conv)
  have "join sep (split_from sep [] s) = s" using join_split_from [of sep "[]" s] by simp
  then have "s = a @ sep @ c" using ac by simp
  then show ?thesis using ac ne by (auto simp: py_split_def unpack2_def)
qed

lemma unpack2_middle:
  "borderless sep \<Longrightarrow> occurrences sep (x @ sep @ y) = 1 \<Longrightarrow>
     unpack2 (py_split (x @ sep @ y) sep) = Inr (x, y)"
  using split_from_unique [of sep x y "[]"]
  by (simp add: py_split_def unpack2_def borderless_def)

lemma unpack2_split_cases:
  "borderless sep \<Longrightarrow>
     unpack2 (py_split s sep) = Inl ValueError \<and> occurrences sep s \<noteq> 1
     \<or> (\<exists>a b. unpack2 (py_split s sep) = Inr (a, b) \<and> s = a @ sep @ b \<and> occurrences sep s = 1)"
  using unpack2_not_one [of sep s] unpack2_one [of sep s] by blast







lemma log_extern:
  "log (extern c f fs) = [(c, case fst (f fs) of None \<Rightarrow> Returned | Some e \<Rightarrow> Raises e)]"
  by (simp add: extern_def log_def split: prod.splits option.splits)

lemma res_extern:
  "res (extern c f fs) = (case fst (f fs) of None \<Rightarrow> Inr () | Some e \<Rightarrow> Inl e)"
  by (simp add: extern_def res_def split: prod.splits option.splits)

lemma disk_extern: "disk (extern c f fs) = snd (f fs)"
  by (simp add: extern_def disk_def split: prod.splits option.splits)






section \<open>The loops over the input files\<close>

lemma stage_runs_append: "stage_runs (s @ t) = stage_runs s @ stage_runs t"
  by (simp add: stage_runs_def map_filter_def)

lemma stage_runs_Nil: "stage_runs [] = []"
  by (simp add: stage_runs_def map_filter_def)

lemma stage_runs_run_stage:
  "stage_runs (log (run_stage w st cfg f fs)) = [(st, f)]"
  by (simp add: run_stage_def log_extern stage_runs_def map_filter_def)

lemma log_run_stage:
  "log (run_stage w st cfg f fs) =
     [(PipelineRun st cfg f, case fst (pipeline_run w st cfg f fs) of
                               None \<Rightarrow> Returned | Some e \<Rightarrow> Raises e)]"
  by (simp add: run_stage_def log_extern)






lemma every_eventD: "every_event P m \<Longrightarrow> ev \<in> set (log (m fs)) \<Longrightarrow> P ev"
  by (auto simp: every_event_def list_all_iff)

lemma every_event_ret: "every_event P (ret a)"
  by (simp add: every_event_def log_ret)

lemma every_event_raise: "every_event P (raise e)"
  by (simp add: every_event_def raise_def log_def)

lemma every_event_extern:
  "P (c, Returned) \<Longrightarrow> (\<And>e. P (c, Raises e)) \<Longrightarrow> every_event P (extern c f)"
  by (simp add: every_event_def log_extern split: option.splits)

lemma every_event_bind:
  "every_event P m \<Longrightarrow> (\<And>a. every_event P (f a)) \<Longrightarrow> every_event P (bind m f)"
  by (simp add: every_event_def log_bind split: sum.splits)

lemma every_event_seq:
  "every_event P m \<Longrightarrow> every_event P n \<Longrightarrow> every_event P (seq m n)"
  by (simp add: seq_def every_event_bind)

lemma every_event_for_each:
  "(\<And>x. x \<in> set xs \<Longrightarrow> every_event P (body x)) \<Longrightarrow> every_event P (for_each xs body)"
  by (induction xs) (simp_all add: every_event_ret every_event_seq)

lemma every_event_mono:
  "every_event P m \<Longrightarrow> (\<And>ev. P ev \<Longrightarrow> Q ev) \<Longrightarrow> every_event Q m"
  by (auto simp: every_event_def list_all_iff)

lemma every_event_run_stage:
  "(\<And>out. P (PipelineRun st cfg f, out)) \<Longrightarrow> every_event P (run_stage w st cfg f)"
  by (simp add: run_stage_def every_event_extern)

lemma spec2_config_flags:
  "map_of (spec2_config keep f base) k =
     (if k = ''output_file'' then Some (PyStr base)
      else if k = ''extract_1d.skip'' \<or> k = ''straylight.skip'' then Some (PyBool True)
      else if k = ''cube_build.skip'' \<and> f \<noteq> keep then Some (PyBool True)
      else None)"
  by (simp add: spec2_config_def setattr_def update_conv')

lemma spec2_body_events:
  "every_event (\<lambda>ev. \<exists>base. fst ev = PipelineRun Spec2Pipeline (spec2_config keep f base) f)
     (spec2_body w keep f)"
  unfolding spec2_body_def
  by (auto split: sum.splits intro!: every_event_raise every_event_run_stage)

lemma niriss_body_events:
  "every_event (\<lambda>ev. fst ev = PipelineRun Detector1Pipeline detector1_config df
     \<or> fst ev = PipelineRun Image2Pipeline image2_config (df_rate df)
     \<or> fst ev = PipelineRun Image2Pipeline image2_config (df_rateints df))
     (niriss_pipeline_body w df)"
  unfolding niriss_pipeline_body_def
  by (intro every_event_seq every_event_run_stage) simp_all

lemma detector1_loop_events:
  "pipe1 = [] \<or> (\<exists>out. pipe1 = [(''refpix.skip'', PyBool True), (''output_file'', PyStr out)]) \<Longrightarrow>
   every_event (\<lambda>ev. \<exists>f out. fst ev = PipelineRun Detector1Pipeline
                 [(''refpix.skip'', PyBool True), (''output_file'', PyStr out)] f
       \<and> f \<in> set files) (detector1_loop w pipe1 files)"
proof (induction files arbitrary: pipe1)
  case Nil
  then show ?case by (simp add: every_event_ret)
next
  case (Cons f files)
  show ?case
  proof (cases "parse_detector1 f")
    case (Inl e)
    then show ?thesis by (simp add: every_event_raise)
  next
    case (Inr r)
    obtain base d where r: "r = (base, d)" by (cases r)
    let ?p = "setattr ''output_file'' (PyStr (base @ d)) (setattr ''refpix.skip'' (PyBool True) pipe1)"
    have ro: "?p = [(''refpix.skip'', PyBool True), (''output_file'', PyStr (base @ d))]"
      using Cons.prems by (auto simp: setattr_def)
    have rest: "every_event (\<lambda>ev. \<exists>g out. fst ev = PipelineRun Detector1Pipeline
                 [(''refpix.skip'', PyBool True), (''output_file'', PyStr out)] g
          \<and> g \<in> set (f # files)) (detector1_loop w ?p files)"
      by (rule every_event_mono [OF Cons.IH [of ?p]]) (auto simp: ro)
    have here: "every_event (\<lambda>ev. \<exists>g out. fst ev = PipelineRun Detector1Pipeline
                 [(''refpix.skip'', PyBool True), (''output_file'', PyStr out)] g
          \<and> g \<in> set (f # files)) (run_stage w Detector1Pipeline ?p f)"
      by (rule every_event_run_stage) (simp add: ro)
    show ?thesis
      using Inr r every_event_seq [OF here rest] by (simp add: Let_def)
  qed
qed





text \<open>
  C3 (as amended). The notebooks branch on more than loops and download checks: the
  unpacking and the output directory are guarded by \<open>os.path.exists\<close> as well, and the
  Spec2 loops of the MRS notebook compare the current file name with one fixed name
  per channel. For that one file \<open>cube_build.skip\<close> is left unset; for every other file it
  is set. Every other stage flag is the same for every file: Spec2 always sets
  \<open>straylight.skip\<close> and \<open>extract_1d.skip\<close>, the MRS Detector1 runs set \<open>refpix.skip\<close> and
  nothing else but the output name, the NIRISS runs use one fixed configuration per
  stage, and Spec3 is run once with a fixed configuration.
\<close>

theorem stage_flags_by_file:
  "(\<forall>ev \<in> set (log (mrs_spec2_cell w fs)).
      \<exists>keep f base. fst ev = PipelineRun Spec2Pipeline (spec2_config keep f base) f
        \<and> (keep = keep_short \<or> keep = keep_long))
   \<and> map_of (spec2_config keep f base) k =
       (if k = ''output_file'' then Some (PyStr base)
        else if k = ''extract_1d.skip'' \<or> k = ''straylight.skip'' then Some (PyBool True)
        else if k = ''cube_build.skip'' \<and> f \<noteq> keep then Some (PyBool True)
        else None)
   \<and> (\<forall>ev \<in> set (log (mrs_detector1_cell w fs)).
        \<exists>f out. fst ev = PipelineRun Detector1Pipeline
                   [(''refpix.skip'', PyBool True), (''output_file'', PyStr out)] f)
   \<and> (\<forall>ev \<in> set (log (for_each files (niriss_pipeline_body w) fs)).
        \<exists>p. fst ev = PipelineRun Detector1Pipeline detector1_config p
           \<or> fst ev = PipelineRun Image2Pipeline image2_config p)
   \<and> map fst (log (mrs_spec3_cell w fs)) = [PipelineRun Spec3Pipeline spec3_config asnallfile]"
proof (intro conjI ballI)
  let ?short = "glob fs ''det_image_*_MIRIFUSHORT_*_rate.fits''"
  let ?long = "glob fs ''det_image_*_MIRIFULONG_*_rate.fits''"
  let ?P = "\<lambda>ev. \<exists>keep f base. fst ev = PipelineRun Spec2Pipeline (spec2_config keep f base) f
        \<and> (keep = keep_short \<or> keep = keep_long)"
  have a: "every_event ?P (for_each xs (spec2_body w kp))"
    if "kp = keep_short \<or> kp = keep_long" for xs kp
    by (rule every_event_for_each, rule every_event_mono [OF spec2_body_events])
      (use that in blast)
  have "every_event ?P (seq (for_each ?short (spec2_body w keep_short))
      (for_each ?long (spec2_body w keep_long)))"
    by (intro every_event_seq a) simp_all
  moreover fix ev assume "ev \<in> set (log (mrs_spec2_cell w fs))"
  ultimately show "?P ev"
    by (auto simp: mrs_spec2_cell_def Let_def dest: every_eventD)
next
  show "map_of (spec2_config keep f base) k =
       (if k = ''output_file'' then Some (PyStr base)
        else if k = ''extract_1d.skip'' \<or> k = ''straylight.skip'' then Some (PyBool True)
        else if k = ''cube_build.skip'' \<and> f \<noteq> keep then Some (PyBool True)
        else None)"
    by (rule spec2_config_flags)
next
  let ?short = "glob fs ''20210413_*_mirisim/det_images/*MIRIFUSHORT*fits''"
  let ?long = "glob fs ''20210413_*_mirisim/det_images/*MIRIFULONG*fits''"
  let ?Q = "\<lambda>ev. \<exists>f out. fst ev = PipelineRun Detector1Pipeline
                   [(''refpix.skip'', PyBool True), (''output_file'', PyStr out)] f"
  have b: "every_event ?Q (detector1_loop w [] xs)" for xs
    by (rule every_event_mono [OF detector1_loop_events [of "[]" xs w]]) auto
  have "every_event ?Q (seq (detector1_loop w [] ?short) (detector1_loop w [] ?long))"
    by (intro every_event_seq b)
  moreover fix ev assume "ev \<in> set (log (mrs_detector1_cell w fs))"
  ultimately show "?Q ev"
    by (auto simp: mrs_detector1_cell_def Let_def dest: every_eventD)
next
  let ?R = "\<lambda>ev. \<exists>p. fst ev = PipelineRun Detector1Pipeline detector1_config p
           \<or> fst ev = PipelineRun Image2Pipeline image2_config p"
  have "every_event ?R (for_each files (niriss_pipeline_body w))"
    by (rule every_event_for_each, rule every_event_mono [OF niriss_body_events]) blast
  moreover fix ev assume "ev \<in> set (log (for_each files (niriss_pipeline_body w) fs))"
  ultimately show "?R ev" by (rule every_eventD)
next
  show "map fst (log (mrs_spec3_cell w fs)) = [PipelineRun Spec3Pipeline spec3_config asnallfile]"
    by (simp add: mrs_spec3_cell_def log_run_stage)
qed

text \<open>
  The claim as first stated fails: in one run of the Spec2 cell over two files the
  first file is run without \<open>cube_build.skip\<close> and the second with it.
\<close>

theorem stage_flags_counterexample:
  "map fst (log (mrs_spec2_cell calm_world disk_two_rates)) =
     [PipelineRun Spec2Pipeline
        [(''straylight.skip'', PyBool True), (''extract_1d.skip'', PyBool True),
         (''output_file'', PyStr ''det_image_seq1_MIRIFUSHORT_12LONGexp1125354_rate'')]
        ''det_image_seq1_MIRIFUSHORT_12LONGexp1125354_rate.fits'',
      PipelineRun Spec2Pipeline
        [(''straylight.skip'', PyBool True), (''cube_build.skip'', PyBool True),
         (''extract_1d.skip'', PyBool True),
         (''output_file'', PyStr ''det_image_seq2_MIRIFUSHORT_12LONGexp1125354_rate'')]
        ''det_image_seq2_MIRIFUSHORT_12LONGexp1125354_rate.fits'']"
  by code_simp

theorem stage_flags_by_file_witness:
  "map_of (spec2_config keep_short keep_short ''b'') ''cube_build.skip'' = None
   \<and> map_of (spec2_config keep_short ''det_image_seq2_MIRIFUSHORT_12LONGexp1125354_rate.fits'' ''b'')
        ''cube_build.skip'' = Some (PyBool True)
   \<and> map_of (spec2_config keep_short keep_short ''b'') ''straylight.skip'' = Some (PyBool True)
   \<and> log (mrs_spec2_cell calm_world disk_two_rates) \<noteq> []
   \<and> log (mrs_detector1_cell calm_world disk_two_raw) \<noteq> []"
proof -
  have n: "''det_image_seq2_MIRIFUSHORT_12LONGexp1125354_rate.fits'' \<noteq> keep_short"
    by (simp add: keep_short_def)
  have l: "log (mrs_spec2_cell calm_world disk_two_rates) \<noteq> []"
    "log (mrs_detector1_cell calm_world disk_two_raw) \<noteq> []" by code_simp+
  show ?thesis
    using n l
      stage_flags_by_file [of calm_world disk_two_rates keep_short keep_short "''b''"
        "''cube_build.skip''" "[]"]
      stage_flags_by_file [of calm_world disk_two_raw keep_short
        "''det_image_seq2_MIRIFUSHORT_12LONGexp1125354_rate.fits''" "''b''"
        "''cube_build.skip''" "[]"]
      stage_flags_by_file [of calm_world disk_two_rates keep_short keep_short "''b''"
        "''straylight.skip''" "[]"]
    by simp
qed

section \<open>Names of products\<close>

lemma glob_match_literal:
  "CHR ''*'' \<notin> set lit \<Longrightarrow> glob_match st lit s \<longleftrightarrow> s = lit"
proof (induction lit arbitrary: s st)
  case Nil
  then show ?case by simp
next
  case (Cons p ps)
  then show ?case by (cases s) auto
qed

lemma glob_match_suffix:
  "glob_match st p s \<Longrightarrow> p = pre @ lit \<Longrightarrow> CHR ''*'' \<notin> set lit \<Longrightarrow> suffix lit s"
proof (induction st p s arbitrary: pre rule: glob_match.induct)
  case (1 st s)
  then show ?case by simp
next
  case (2 st p ps)
  show ?case
  proof (cases pre)
    case Nil
    then show ?thesis using 2 glob_match_literal [of lit st "[]"] by simp
  next
    case (Cons q pre')
    then show ?thesis using 2 by auto
  qed
next
  case (3 st p ps c cs)
  show ?case
  proof (cases pre)
    case Nil
    then have "c # cs = lit" using 3 glob_match_literal [of lit st "c # cs"] by simp
    then show ?thesis by simp
  next
    case (Cons q pre')
    then have ps: "ps = pre' @ lit" and q: "q = p" using 3 by simp_all
    show ?thesis
    proof (cases "p = CHR ''*''")
      case True
      note star = True
      show ?thesis
      proof (cases "c = CHR ''/''")
        case True
        then have "glob_match False ps (c # cs)" using "3.prems"(1) star by simp
        then show ?thesis using "3.IH"(1) [of pre'] star True ps "3.prems" by simp
      next
        case False
        then have nh: "\<not> (st \<and> c = CHR ''.'')" using "3.prems"(1) star by auto
        then consider "glob_match False ps (c # cs)" | "glob_match False (p # ps) cs"
          using "3.prems"(1) star False by auto
        then show ?thesis
        proof cases
          case 1
          then show ?thesis using "3.IH"(2) [of pre'] star False nh ps "3.prems" by simp
        next
          case 2
          then have "suffix lit cs"
            using "3.IH"(3) [of pre] star False nh "3.prems" by simp
          then show ?thesis by (simp add: suffix_ConsI)
        qed
      qed
    next
      case False
      then have "glob_match (p = CHR ''/'') ps cs" using "3.prems"(1) by simp
      then have "suffix lit cs" using "3.IH"(4) [of pre'] False ps "3.prems" by simp
      then show ?thesis by (simp add: suffix_ConsI)
    qed
  qed
qed











section \<open>The header-fix loop\<close>

lemma glob_match_prefix:
  "CHR ''*'' \<notin> set lit \<Longrightarrow> glob_match st (lit @ rest) s \<Longrightarrow> prefix lit s"
proof (induction lit arbitrary: s st)
  case Nil
  then show ?case by simp
next
  case (Cons p ps)
  then show ?case by (cases s) auto
qed

lemma normpath_id:
  "p \<noteq> [] \<Longrightarrow> hd p \<noteq> CHR ''.'' \<Longrightarrow> last p \<noteq> CHR ''/'' \<Longrightarrow> normpath p = p"
  by (cases p) (auto simp: normpath_def)

lemma occurrences_char: "occurrences [c] s = count_list s c"
  by (induction s) auto

lemma cal_glob_shape:
  assumes "f \<in> set (glob fs ''det_image_*_cal.fits'')"
  shows "prefix ''det_image_'' f \<and> suffix ''_cal.fits'' f \<and> normpath f = f"
proof -
  have m: "glob_match True ''det_image_*_cal.fits'' f" using assms by (simp add: glob_def)
  have p: "prefix ''det_image_'' f"
    using glob_match_prefix [of "''det_image_''" True "''*_cal.fits''" f] m by simp
  have s: "suffix ''_cal.fits'' f"
    using glob_match_suffix [OF m, of "''det_image_*''" "''_cal.fits''"] by simp
  from p obtain y where y: "f = ''det_image_'' @ y" by (auto simp: prefix_def)
  from s obtain z where z: "f = z @ ''_cal.fits''" by (auto simp: suffix_def)
  have "f \<noteq> []" "hd f \<noteq> CHR ''.''" using y by simp_all
  moreover have "last f \<noteq> CHR ''/''" using z by simp
  ultimately have "normpath f = f" by (rule normpath_id)
  then show ?thesis using p s by simp
qed

text \<open>A globbed name that the loop body can unpack, and the name it writes.\<close>

lemma cal_name_parts:
  assumes s: "suffix ''_cal.fits'' f" and u: "unpack2 (py_split f ''.'') = Inr (base, remainder)"
  shows "\<exists>stem. f = stem @ ''_cal.fits'' \<and> base = stem @ ''_cal'' \<and> remainder = ''fits''
      \<and> normpath (base @ ''_fix.'' @ remainder) = stem @ ''_cal_fix.fits''
      \<and> normpath (stem @ ''_cal_fix.fits'') = stem @ ''_cal_fix.fits''"
proof -
  from s obtain stem where f: "f = stem @ ''_cal.fits''" by (auto simp: suffix_def)
  have one: "occurrences ''.'' f = 1"
    using unpack2_split_cases [OF borderless_consts(1), of f] u by auto
  then have "occurrences ''.'' ((stem @ ''_cal'') @ ''.'' @ ''fits'') = 1" using f by simp
  then have "unpack2 (py_split ((stem @ ''_cal'') @ ''.'' @ ''fits'') ''.'') = Inr (stem @ ''_cal'', ''fits'')"
    by (rule unpack2_middle [OF borderless_consts(1)])
  then have br: "base = stem @ ''_cal''" "remainder = ''fits''" using u f by simp_all
  have "count_list f CHR ''.'' = 1" using one by (simp add: occurrences_char)
  then have nd: "CHR ''.'' \<notin> set stem" using f by (auto simp: count_list_0_iff split: if_splits)
  have "hd (stem @ ''_cal_fix.fits'') \<noteq> CHR ''.''" using nd by (cases stem) auto
  then have "normpath (stem @ ''_cal_fix.fits'') = stem @ ''_cal_fix.fits''"
    by (intro normpath_id) simp_all
  then show ?thesis using f br by simp
qed














section \<open>Order, exceptions and own writes of whole notebooks\<close>

lemma staged_const: "every_event (\<lambda>ev. ph (fst ev) = n) m \<Longrightarrow> staged ph n n m"
proof -
  assume e: "every_event (\<lambda>ev. ph (fst ev) = n) m"
  have "map (\<lambda>ev. ph (fst ev)) (log (m fs)) = replicate (length (log (m fs))) n" for fs
    using e by (auto simp: every_event_def list_all_iff map_replicate_const [symmetric])
  then show ?thesis
    using e by (auto simp: staged_def every_event_def list_all_iff sorted_replicate)
qed

lemma staged_bind:
  assumes m: "staged ph a b m" and f: "\<And>x. staged ph c d (f x)"
    and le: "a \<le> b" "b \<le> c" "c \<le> d"
  shows "staged ph a d (bind m f)"
  unfolding staged_def
proof (intro allI conjI)
  fix fs
  let ?l1 = "log (m fs)"
  have s1: "sorted (map (\<lambda>ev. ph (fst ev)) ?l1)"
    and b1: "\<forall>ev \<in> set ?l1. a \<le> ph (fst ev) \<and> ph (fst ev) \<le> b"
    using m by (auto simp: staged_def list_all_iff)
  show "sorted (map (\<lambda>ev. ph (fst ev)) (log (bind m f fs)))"
  proof (cases "res (m fs)")
    case (Inl e)
    then show ?thesis using s1 by (simp add: log_bind)
  next
    case (Inr x)
    let ?l2 = "log (f x (disk (m fs)))"
    have s2: "sorted (map (\<lambda>ev. ph (fst ev)) ?l2)"
      and b2: "\<forall>ev \<in> set ?l2. c \<le> ph (fst ev) \<and> ph (fst ev) \<le> d"
      using f [of x] by (auto simp: staged_def list_all_iff)
    show ?thesis
      using Inr s1 s2 b1 b2 le by (fastforce simp: log_bind sorted_append)
  qed
  show "list_all (\<lambda>ev. a \<le> ph (fst ev) \<and> ph (fst ev) \<le> d) (log (bind m f fs))"
  proof (cases "res (m fs)")
    case (Inl e)
    then show ?thesis using b1 le by (fastforce simp: log_bind list_all_iff)
  next
    case (Inr x)
    let ?l2 = "log (f x (disk (m fs)))"
    have b2: "\<forall>ev \<in> set ?l2. c \<le> ph (fst ev) \<and> ph (fst ev) \<le> d"
      using f [of x] by (auto simp: staged_def list_all_iff)
    show ?thesis
      using Inr b1 b2 le by (fastforce simp: log_bind list_all_iff)
  qed
qed

lemma staged_seq:
  "staged ph a b m \<Longrightarrow> staged ph c d n \<Longrightarrow> a \<le> b \<Longrightarrow> b \<le> c \<Longrightarrow> c \<le> d \<Longrightarrow>
     staged ph a d (seq m n)"
  unfolding seq_def by (rule staged_bind)

lemma staged_silent: "every_event (\<lambda>ev. False) m \<Longrightarrow> staged ph a b m"
proof -
  assume e: "every_event (\<lambda>ev. False) m"
  have "log (m fs) = []" for fs
    using every_eventD [OF e, of _ fs] by (cases "log (m fs)") auto
  then show ?thesis by (simp add: staged_def)
qed

lemma uncaught_bind:
  assumes "uncaught (m fs)" and "\<And>a fs'. uncaught (f a fs')"
  shows "uncaught (bind m f fs)"
proof (cases "res (m fs)")
  case (Inl e)
  then have "bind m f fs = (Inl e, disk (m fs), log (m fs))"
    by (auto simp: bind_def res_def disk_def log_def split: prod.splits sum.splits)
  then show ?thesis using assms(1) Inl by (simp add: uncaught_def res_def log_def)
next
  case (Inr a)
  let ?r2 = "f a (disk (m fs))"
  have c1: "list_all (\<lambda>ev. snd ev = Returned) (log (m fs))"
    using assms(1) Inr by (simp add: uncaught_def)
  have l: "log (bind m f fs) = log (m fs) @ log ?r2" using Inr by (simp add: log_bind)
  have r: "res (bind m f fs) = res ?r2" using Inr by (simp add: res_bind)
  have u2: "uncaught ?r2" by (rule assms(2))
  show ?thesis
  proof (cases "log ?r2 = []")
    case True
    then show ?thesis
      using c1 u2 l r
      by (auto simp: uncaught_def list_all_iff split: sum.splits dest: in_set_butlastD)
  next
    case False
    then show ?thesis
      using c1 u2 l r
      by (auto simp: uncaught_def list_all_iff butlast_append split: sum.splits)
  qed
qed

lemma safe_bind: "safe m \<Longrightarrow> (\<And>a. safe (f a)) \<Longrightarrow> safe (bind m f)"
  by (simp add: safe_def uncaught_bind)

lemma safe_seq: "safe m \<Longrightarrow> safe n \<Longrightarrow> safe (seq m n)"
  by (simp add: seq_def safe_bind)

lemma safe_ret: "safe (ret a)"
  by (simp add: safe_def uncaught_def ret_def res_def log_def)

lemma safe_raise: "safe (raise e)"
  by (simp add: safe_def uncaught_def raise_def res_def log_def)

lemma safe_extern: "safe (extern c f)"
  by (auto simp: safe_def uncaught_def extern_def res_def log_def split: prod.splits option.splits)

lemma safe_for_each: "(\<And>x. safe (body x)) \<Longrightarrow> safe (for_each xs body)"
  by (induction xs) (simp_all add: safe_ret safe_seq)

lemma quiet_bind: "quiet m \<Longrightarrow> (\<And>a. quiet (f a)) \<Longrightarrow> quiet (bind m f)"
  by (auto simp: quiet_def log_bind disk_bind split: sum.splits)

lemma quiet_seq: "quiet m \<Longrightarrow> quiet n \<Longrightarrow> quiet (seq m n)"
  by (simp add: seq_def quiet_bind)

lemma quiet_ret: "quiet (ret a)"
  by (simp add: quiet_def disk_ret)

lemma quiet_raise: "quiet (raise e)"
  by (simp add: quiet_def raise_def disk_def)

lemma quiet_extern: "quiet (extern c f)"
  by (simp add: quiet_def log_extern)

lemma quiet_for_each: "(\<And>x. quiet (body x)) \<Longrightarrow> quiet (for_each xs body)"
  by (induction xs) (simp_all add: quiet_ret quiet_seq)

lemma orderly_ret: "orderly K (ret a)"
  by (simp add: orderly_def every_event_ret safe_ret quiet_ret)

lemma orderly_raise: "orderly K (raise e)"
  by (simp add: orderly_def every_event_raise safe_raise quiet_raise)

lemma orderly_extern:
  "K (c, Returned) \<Longrightarrow> (\<And>e. K (c, Raises e)) \<Longrightarrow> orderly K (extern c f)"
  by (simp add: orderly_def every_event_extern safe_extern quiet_extern)

lemma orderly_bind: "orderly K m \<Longrightarrow> (\<And>a. orderly K (f a)) \<Longrightarrow> orderly K (bind m f)"
  by (simp add: orderly_def every_event_bind safe_bind quiet_bind)

lemma orderly_seq: "orderly K m \<Longrightarrow> orderly K n \<Longrightarrow> orderly K (seq m n)"
  by (simp add: seq_def orderly_bind)

lemma orderly_for_each:
  "(\<And>x. x \<in> set xs \<Longrightarrow> orderly K (body x)) \<Longrightarrow> orderly K (for_each xs body)"
  by (induction xs) (simp_all add: orderly_ret orderly_seq)

lemma orderly_mono: "orderly K m \<Longrightarrow> (\<And>ev. K ev \<Longrightarrow> K' ev) \<Longrightarrow> orderly K' m"
  unfolding orderly_def using every_event_mono by blast

lemma orderly_cell: "(\<And>fs. \<exists>m. orderly K m \<and> cell fs = m fs) \<Longrightarrow> orderly K cell"
  unfolding orderly_def every_event_def safe_def quiet_def by metis

lemma orderly_if:
  "orderly K m \<Longrightarrow> orderly K n \<Longrightarrow> orderly K (\<lambda>fs. if c fs then m fs else n fs)"
  by (simp add: orderly_def every_event_def safe_def quiet_def)

lemma orderly_run_stage:
  "(\<And>out. K (PipelineRun st cfg f, out)) \<Longrightarrow> orderly K (run_stage w st cfg f)"
  by (simp add: run_stage_def orderly_extern)

lemma orderly_urlretrieve:
  "(\<And>out. K (UrlRetrieve url dest, out)) \<Longrightarrow> orderly K (urlretrieve w url dest)"
  by (auto simp: orderly_def every_event_def safe_def quiet_def uncaught_def urlretrieve_def
      log_def res_def split: fetch_result.splits)

lemma orderly_fits_open: "orderly K (fits_open p)"
  by (auto simp: orderly_def every_event_def safe_def quiet_def uncaught_def fits_open_def
      log_def res_def disk_def split: option.splits node.splits)

lemma orderly_fits_getheader: "orderly K (fits_getheader p)"
  unfolding fits_getheader_def
  by (auto intro!: orderly_bind orderly_fits_open orderly_raise orderly_ret split: list.splits)

lemma orderly_fits_writeto: "K (FitsWriteTo p, Returned) \<Longrightarrow> orderly K (fits_writeto p hdus)"
  by (auto simp: orderly_def every_event_def safe_def quiet_def uncaught_def fits_writeto_def
      log_def res_def)

lemma orderly_fits_setval:
  "K (FitsSetval p k v, Returned) \<Longrightarrow> orderly K (fits_setval p k v)"
  unfolding fits_setval_def
  by (rule orderly_bind, rule orderly_fits_open)
    (auto simp: orderly_def every_event_def safe_def quiet_def uncaught_def log_def res_def
      raise_def disk_def split: sum.splits)

lemma orderly_display: "orderly K (display_cell w n)"
  by (auto simp: orderly_def every_event_def safe_def quiet_def uncaught_def display_cell_def
      log_def res_def disk_def split: option.splits)

subsection \<open>The cells of the MRS notebook\<close>

lemma orderly_mrs_download:
  "orderly (\<lambda>ev. mrs_phase (fst ev) = 0 \<and> mrs_own_ok (fst ev)) (mrs_download_cell w)"
proof -
  have b: "orderly (\<lambda>ev. mrs_phase (fst ev) = 0 \<and> mrs_own_ok (fst ev)) (download_block w n)"
    for n
  proof -
    have "download_block w n = (\<lambda>fs. if os_path_exists fs n then ret () fs
        else urlretrieve w (mrs_url n) (''./'' @ n) fs)"
      by (rule ext) (simp add: download_block_def)
    then show ?thesis by (simp add: orderly_if orderly_ret orderly_urlretrieve)
  qed
  show ?thesis unfolding mrs_download_cell_def by (intro orderly_seq b)
qed

lemma orderly_mrs_untar:
  "orderly (\<lambda>ev. mrs_phase (fst ev) = 1 \<and> mrs_own_ok (fst ev)) (mrs_untar_cell w)"
proof -
  have b: "orderly (\<lambda>ev. mrs_phase (fst ev) = 1 \<and> mrs_own_ok (fst ev)) (untar_block w n)"
    for n
  proof -
    have "untar_block w n = (\<lambda>fs. if os_path_exists fs (n @ ''/'') then ret () fs
        else extern (TarExtractAll (''./'' @ n @ ''.tar.gz''))
               (tar_extractall w (''./'' @ n @ ''.tar.gz'')) fs)"
      by (rule ext) (simp add: untar_block_def)
    then show ?thesis by (simp add: orderly_if orderly_ret orderly_extern)
  qed
  show ?thesis unfolding mrs_untar_cell_def by (intro orderly_seq b)
qed

lemma orderly_detector1_loop:
  "orderly (\<lambda>ev. mrs_phase (fst ev) = 2 \<and> mrs_own_ok (fst ev)) (detector1_loop w pipe1 files)"
proof (induction files arbitrary: pipe1)
  case Nil
  then show ?case by (simp add: orderly_ret)
next
  case (Cons f files)
  show ?case
    by (cases "parse_detector1 f")
      (auto simp: Let_def intro!: orderly_raise orderly_seq orderly_run_stage Cons.IH)
qed

lemma orderly_mrs_detector1:
  "orderly (\<lambda>ev. mrs_phase (fst ev) = 2 \<and> mrs_own_ok (fst ev)) (mrs_detector1_cell w)"
  by (rule orderly_cell)
    (auto simp: mrs_detector1_cell_def Let_def intro: orderly_seq orderly_detector1_loop)

lemma orderly_spec2_body:
  "orderly (\<lambda>ev. mrs_phase (fst ev) = 3 \<and> mrs_own_ok (fst ev)) (spec2_body w keep f)"
  unfolding spec2_body_def
  by (auto split: sum.splits intro!: orderly_raise orderly_run_stage)

lemma orderly_mrs_spec2:
  "orderly (\<lambda>ev. mrs_phase (fst ev) = 3 \<and> mrs_own_ok (fst ev)) (mrs_spec2_cell w)"
  by (rule orderly_cell)
    (auto simp: mrs_spec2_cell_def Let_def intro: orderly_seq orderly_for_each orderly_spec2_body)

lemma orderly_mrs_detect:
  "orderly (\<lambda>ev. mrs_phase (fst ev) = 4 \<and> mrs_own_ok (fst ev)) (mrs_detect_cell w)"
  by (auto simp: orderly_def every_event_def safe_def quiet_def uncaught_def mrs_detect_cell_def
      log_def res_def split: sum.splits)

lemma orderly_header_fix_body:
  assumes s: "suffix ''_cal.fits'' f"
  shows "orderly (\<lambda>ev. mrs_phase (fst ev) = 5 \<and> mrs_own_ok (fst ev))
     (header_fix_body targra targdec f)"
proof (cases "unpack2 (py_split f ''.'')")
  case (Inl e)
  then show ?thesis by (simp add: header_fix_body_def orderly_raise)
next
  case (Inr br)
  obtain base remainder where br: "br = (base, remainder)" by (cases br)
  from cal_name_parts [OF s Inr [unfolded br]] obtain stem where
    "base = stem @ ''_cal''" "remainder = ''fits''" by blast
  then have sf: "suffix ''_cal_fix.fits'' (base @ ''_fix.'' @ remainder)"
    by (simp add: suffix_def)
  show ?thesis
    using Inr br sf
    by (auto simp: header_fix_body_def split: sum.splits
        intro!: orderly_bind orderly_fits_open orderly_raise orderly_fits_writeto)
qed

lemma orderly_mrs_header_fix:
  "orderly (\<lambda>ev. mrs_phase (fst ev) = 5 \<and> mrs_own_ok (fst ev))
     (mrs_header_fix_cell targra targdec)"
proof (rule orderly_cell)
  fix fs
  have "orderly (\<lambda>ev. mrs_phase (fst ev) = 5 \<and> mrs_own_ok (fst ev))
      (for_each (glob fs ''det_image_*_cal.fits'') (header_fix_body targra targdec))"
    by (rule orderly_for_each, rule orderly_header_fix_body) (use cal_glob_shape in blast)
  then show "\<exists>m. orderly (\<lambda>ev. mrs_phase (fst ev) = 5 \<and> mrs_own_ok (fst ev)) m
      \<and> mrs_header_fix_cell targra targdec fs = m fs"
    by (auto simp: mrs_header_fix_cell_def)
qed

lemma orderly_mrs_asn:
  "orderly (\<lambda>ev. mrs_phase (fst ev) = 6 \<and> mrs_own_ok (fst ev)) (mrs_asn_cell w)"
  by (auto simp: orderly_def every_event_def safe_def quiet_def uncaught_def mrs_asn_cell_def
      asnallfile_def Let_def log_def res_def split: sum.splits)

lemma orderly_mrs_spec3:
  "orderly (\<lambda>ev. mrs_phase (fst ev) = 7 \<and> mrs_own_ok (fst ev)) (mrs_spec3_cell w)"
  unfolding mrs_spec3_cell_def by (rule orderly_run_stage) simp

subsection \<open>The cells of the NIRISS notebook\<close>

lemma orderly_niriss_download:
  "orderly (\<lambda>ev. niriss_phase (fst ev) = 0 \<and> niriss_own_ok (fst ev)) (niriss_download_cell w)"
proof -
  have "niriss_download_cell w = (\<lambda>fs. if \<not> os_path_exists fs boxfile
      then seq (urlretrieve w boxlink boxfile)
               (extern (ZipExtractAll boxfile) (zip_extractall w boxfile)) fs
      else ret () fs)"
    by (rule ext) (simp add: niriss_download_cell_def)
  then show ?thesis
    by (simp add: orderly_if orderly_ret orderly_seq orderly_urlretrieve orderly_extern)
qed

lemma orderly_niriss_mkdir:
  "orderly (\<lambda>ev. niriss_phase (fst ev) = 1 \<and> niriss_own_ok (fst ev)) niriss_mkdir_cell"
  by (auto simp: orderly_def every_event_def safe_def quiet_def uncaught_def
      niriss_mkdir_cell_def outdir_def ret_def log_def res_def disk_def)

lemma orderly_niriss_body:
  "orderly (\<lambda>ev. niriss_phase (fst ev) = 2 \<and> niriss_own_ok (fst ev)) (niriss_pipeline_body w df)"
  unfolding niriss_pipeline_body_def
  by (intro orderly_seq orderly_run_stage) simp_all

lemma orderly_niriss_correct:
  "orderly (\<lambda>ev. niriss_phase (fst ev) = 3 \<and> niriss_own_ok (fst ev)) (niriss_correct_cell w)"
  unfolding niriss_correct_cell_def by (rule orderly_extern) simp_all

lemma orderly_main:
  "orderly (\<lambda>ev. niriss_phase (fst ev) = 4 \<and> niriss_own_ok (fst ev))
     (main w fitsimdir oitdir oifdir ifn oversample firstfew usebp)"
  unfolding main_def
  by (auto intro!: orderly_bind orderly_fits_getheader orderly_raise orderly_extern
      simp: Let_def split: sum.splits)

lemma orderly_implaneia_body:
  "fnmir \<in> set mirdatafiles \<Longrightarrow>
   orderly (\<lambda>ev. niriss_phase (fst ev) = 4 \<and> niriss_own_ok (fst ev)) (implaneia_body w fnmir)"
  unfolding implaneia_body_def
  by (auto intro!: orderly_bind orderly_seq orderly_fits_getheader orderly_raise
      orderly_fits_setval orderly_main
      simp: Let_def list_ex_iff split: sum.splits pyval.splits) blast+

lemma orderly_niriss_calibrate:
  "orderly (\<lambda>ev. niriss_phase (fst ev) = 5 \<and> niriss_own_ok (fst ev)) (niriss_calibrate_cell w)"
  unfolding niriss_calibrate_cell_def by (rule orderly_extern) simp_all

subsection \<open>Whole notebooks\<close>

lemma staged_of_orderly:
  "orderly (\<lambda>ev. ph (fst ev) = n \<and> Q (fst ev)) m \<Longrightarrow> staged ph n n m"
  by (rule staged_const) (auto simp: orderly_def elim: every_event_mono)

lemma staged_display: "staged ph a b (display_cell w n)"
  by (rule staged_silent) (use orderly_display [of "\<lambda>ev. False"] in \<open>simp add: orderly_def\<close>)

lemma orderly_read: "orderly K (\<lambda>fs. ret (g fs) fs)"
  by (simp add: orderly_def every_event_def safe_def quiet_def uncaught_def ret_def log_def
      res_def disk_def)

lemma staged_read: "staged ph a b (\<lambda>fs. ret (g fs) fs)"
  by (simp add: staged_def ret_def log_def)

lemma staged_mrs_notebook: "staged mrs_phase 0 7 (mrs_notebook w)"
proof -
  note c = staged_of_orderly [OF orderly_mrs_download] staged_of_orderly [OF orderly_mrs_untar]
    staged_of_orderly [OF orderly_mrs_detector1] staged_of_orderly [OF orderly_mrs_spec2]
    staged_of_orderly [OF orderly_mrs_detect] staged_of_orderly [OF orderly_mrs_header_fix]
    staged_of_orderly [OF orderly_mrs_asn] staged_of_orderly [OF orderly_mrs_spec3]
  have s6: "staged mrs_phase 6 7 (seq (mrs_asn_cell w) (mrs_spec3_cell w))"
    by (rule staged_seq [OF c(7) c(8)]) simp_all
  have s5: "staged mrs_phase 5 7 (seq (mrs_header_fix_cell ra dec)
      (seq (mrs_asn_cell w) (mrs_spec3_cell w)))" for ra dec
    by (rule staged_seq [OF c(6) s6]) simp_all
  have s4: "staged mrs_phase 4 7 (bind (mrs_detect_cell w)
       (\<lambda>radec. seq (mrs_header_fix_cell (fst radec) (snd radec))
                (seq (mrs_asn_cell w) (mrs_spec3_cell w))))"
    by (rule staged_bind [OF c(5) s5]) simp_all
  have s3: "staged mrs_phase 3 7 (seq (mrs_spec2_cell w) (bind (mrs_detect_cell w)
       (\<lambda>radec. seq (mrs_header_fix_cell (fst radec) (snd radec))
                (seq (mrs_asn_cell w) (mrs_spec3_cell w)))))"
    by (rule staged_seq [OF c(4) s4]) simp_all
  have s2: "staged mrs_phase 2 7 (seq (mrs_detector1_cell w) (seq (mrs_spec2_cell w)
      (bind (mrs_detect_cell w)
       (\<lambda>radec. seq (mrs_header_fix_cell (fst radec) (snd radec))
                (seq (mrs_asn_cell w) (mrs_spec3_cell w))))))"
    by (rule staged_seq [OF c(3) s3]) simp_all
  have s1: "staged mrs_phase 1 7 (seq (mrs_untar_cell w) (seq (mrs_detector1_cell w)
      (seq (mrs_spec2_cell w) (bind (mrs_detect_cell w)
       (\<lambda>radec. seq (mrs_header_fix_cell (fst radec) (snd radec))
                (seq (mrs_asn_cell w) (mrs_spec3_cell w)))))))"
    by (rule staged_seq [OF c(2) s2]) simp_all
  show ?thesis
    unfolding mrs_notebook_def by (rule staged_seq [OF c(1) s1]) simp_all
qed

lemma orderly_mrs_notebook: "orderly (\<lambda>ev. mrs_own_ok (fst ev)) (mrs_notebook w)"
  unfolding mrs_notebook_def
  by (intro orderly_seq orderly_bind;
      rule orderly_mono [OF orderly_mrs_download] orderly_mono [OF orderly_mrs_untar]
        orderly_mono [OF orderly_mrs_detector1] orderly_mono [OF orderly_mrs_spec2]
        orderly_mono [OF orderly_mrs_detect] orderly_mono [OF orderly_mrs_header_fix]
        orderly_mono [OF orderly_mrs_asn] orderly_mono [OF orderly_mrs_spec3]; simp)

lemma staged_niriss_notebook: "staged niriss_phase 0 5 (niriss_notebook w)"
proof -
  note o = staged_of_orderly [OF orderly_niriss_download]
    staged_of_orderly [OF orderly_niriss_mkdir]
    staged_of_orderly [OF orderly_niriss_correct]
    staged_of_orderly [OF orderly_niriss_calibrate]
  have l1: "staged niriss_phase 2 2 (for_each dfs (niriss_pipeline_body w))" for dfs
    by (rule staged_of_orderly [OF orderly_for_each [OF orderly_niriss_body]])
  have l2: "staged niriss_phase 4 4 (for_each mirdatafiles (implaneia_body w))"
    by (rule staged_of_orderly [OF orderly_for_each [OF orderly_implaneia_body]])
  have t9: "staged niriss_phase 5 5 (seq (display_cell w 4) (niriss_calibrate_cell w))"
    by (rule staged_seq [OF staged_display [of _ 5 5] o(4)]) simp_all
  have t8: "staged niriss_phase 4 5 (seq (for_each mirdatafiles (implaneia_body w))
      (seq (display_cell w 4) (niriss_calibrate_cell w)))"
    by (rule staged_seq [OF l2 t9]) simp_all
  have t7: "staged niriss_phase 4 5 (seq (display_cell w 3)
      (seq (for_each mirdatafiles (implaneia_body w))
      (seq (display_cell w 4) (niriss_calibrate_cell w))))"
    by (rule staged_seq [OF staged_display [of _ 4 4] t8]) simp_all
  have t6: "staged niriss_phase 3 5 (seq (niriss_correct_cell w) (seq (display_cell w 3)
      (seq (for_each mirdatafiles (implaneia_body w))
      (seq (display_cell w 4) (niriss_calibrate_cell w)))))"
    by (rule staged_seq [OF o(3) t7]) simp_all
  have t5: "staged niriss_phase 3 5 (seq (display_cell w 2) (seq (niriss_correct_cell w)
      (seq (display_cell w 3) (seq (for_each mirdatafiles (implaneia_body w))
      (seq (display_cell w 4) (niriss_calibrate_cell w))))))"
    by (rule staged_seq [OF staged_display [of _ 3 3] t6]) simp_all
  have t4: "staged niriss_phase 2 5 (seq (for_each dfs (niriss_pipeline_body w))
      (seq (display_cell w 2) (seq (niriss_correct_cell w)
      (seq (display_cell w 3) (seq (for_each mirdatafiles (implaneia_body w))
      (seq (display_cell w 4) (niriss_calibrate_cell w)))))))" for dfs
    by (rule staged_seq [OF l1 t5]) simp_all
  have t3: "staged niriss_phase 1 5 (seq niriss_mkdir_cell
      (seq (for_each dfs (niriss_pipeline_body w))
      (seq (display_cell w 2) (seq (niriss_correct_cell w)
      (seq (display_cell w 3) (seq (for_each mirdatafiles (implaneia_body w))
      (seq (display_cell w 4) (niriss_calibrate_cell w))))))))" for dfs
    by (rule staged_seq [OF o(2) t4]) simp_all
  have t2: "staged niriss_phase 1 5 (seq (display_cell w 1) (seq niriss_mkdir_cell
      (seq (for_each dfs (niriss_pipeline_body w))
      (seq (display_cell w 2) (seq (niriss_correct_cell w)
      (seq (display_cell w 3) (seq (for_each mirdatafiles (implaneia_body w))
      (seq (display_cell w 4) (niriss_calibrate_cell w)))))))))" for dfs
    by (rule staged_seq [OF staged_display [of _ 1 1] t3]) simp_all
  have t1: "staged niriss_phase 0 5 (bind (\<lambda>fs. ret (niriss_datafiles fs) fs)
      (\<lambda>dfs. seq (display_cell w 1) (seq niriss_mkdir_cell
      (seq (for_each dfs (niriss_pipeline_body w))
      (seq (display_cell w 2) (seq (niriss_correct_cell w)
      (seq (display_cell w 3) (seq (for_each mirdatafiles (implaneia_body w))
      (seq (display_cell w 4) (niriss_calibrate_cell w))))))))))"
    by (rule staged_bind [OF staged_read [of _ 0 0] t2]) simp_all
  show ?thesis
    unfolding niriss_notebook_def by (rule staged_seq [OF o(1) t1]) simp_all
qed

lemma orderly_niriss_notebook: "orderly (\<lambda>ev. niriss_own_ok (fst ev)) (niriss_notebook w)"
  unfolding niriss_notebook_def
  by (intro orderly_seq orderly_bind orderly_for_each orderly_display orderly_read;
      rule orderly_mono [OF orderly_niriss_download] orderly_mono [OF orderly_niriss_mkdir]
        orderly_mono [OF orderly_niriss_body] orderly_mono [OF orderly_niriss_correct]
        orderly_mono [OF orderly_implaneia_body] orderly_mono [OF orderly_niriss_calibrate];
      simp)

lemma uncaught_index:
  assumes u: "uncaught r" and i: "i < length (log r)" and e: "snd (log r ! i) = Raises e"
  shows "Suc i = length (log r) \<and> res r = Inl e"
proof (cases "res r")
  case (Inr a)
  then have "snd (log r ! i) = Returned"
    using u i by (auto simp: uncaught_def list_all_iff)
  then show ?thesis using e by simp
next
  case (Inl e')
  have ne: "log r \<noteq> []" using i by auto
  have bl: "\<forall>ev \<in> set (butlast (log r)). snd ev = Returned"
    using u Inl by (simp add: uncaught_def list_all_iff)
  have last_i: "Suc i = length (log r)"
  proof (rule ccontr)
    assume "Suc i \<noteq> length (log r)"
    then have "i < length (butlast (log r))" using i by simp
    then have "butlast (log r) ! i \<in> set (butlast (log r))" by simp
    moreover have "butlast (log r) ! i = log r ! i"
      using \<open>i < length (butlast (log r))\<close> by (simp add: nth_butlast)
    ultimately show False using bl e by simp
  qed
  then have "i = length (log r) - 1" by simp
  then have "last (log r) = log r ! i" using ne by (simp add: last_conv_nth)
  then have "e' = e" using u Inl ne e by (auto simp: uncaught_def)
  then show ?thesis using last_i Inl by simp
qed

lemma no_runs:
  "every_event (\<lambda>ev. stage_run (fst ev) = None) m \<Longrightarrow> stage_runs (log (m fs)) = []"
  by (auto simp: stage_runs_def map_filter_def filter_empty_conv dest: every_eventD)

lemma no_runs_orderly:
  "orderly (\<lambda>ev. niriss_phase (fst ev) = n \<and> Q (fst ev)) m \<Longrightarrow> n \<noteq> 2 \<Longrightarrow>
     stage_runs (log (m fs)) = []"
proof (rule no_runs)
  assume o: "orderly (\<lambda>ev. niriss_phase (fst ev) = n \<and> Q (fst ev)) m" and n: "n \<noteq> 2"
  have "stage_run c = None" if "niriss_phase c = n" for c
    using that n by (cases c) auto
  then show "every_event (\<lambda>ev. stage_run (fst ev) = None) m"
    using o by (auto simp: orderly_def elim: every_event_mono)
qed

lemma well_staged_append:
  "well_staged seen a \<Longrightarrow> (\<And>seen'. well_staged seen' b) \<Longrightarrow> well_staged seen (a @ b)"
proof (induction a arbitrary: seen)
  case Nil
  then show ?case by simp
next
  case (Cons r rs)
  obtain st p where r: "r = (st, p)" by (cases r)
  show ?case using Cons r by (cases st) auto
qed

lemma well_staged_bind:
  assumes "\<And>seen fs. well_staged seen (stage_runs (log (m fs)))"
    and "\<And>a seen fs. well_staged seen (stage_runs (log (f a fs)))"
  shows "well_staged seen (stage_runs (log (bind m f fs)))"
  using assms
  by (cases "res (m fs)") (simp_all add: log_bind stage_runs_append well_staged_append)

lemma well_staged_seq:
  assumes "\<And>seen fs. well_staged seen (stage_runs (log (m fs)))"
    and "\<And>seen fs. well_staged seen (stage_runs (log (n fs)))"
  shows "well_staged seen (stage_runs (log (seq m n fs)))"
  unfolding seq_def using assms by (intro well_staged_bind)

lemma well_staged_loop:
  "well_staged seen (stage_runs (log (for_each dfs (niriss_pipeline_body w) fs)))"
proof (induction dfs arbitrary: seen fs)
  case Nil
  then show ?case by (simp add: log_ret stage_runs_Nil)
next
  case (Cons df dfs)
  show ?case
    using Cons [of "df # seen"]
    by (simp add: niriss_pipeline_body_def log_seq res_seq stage_runs_append
        stage_runs_run_stage stage_runs_Nil split: sum.splits)
qed

lemma well_staged_niriss_notebook:
  "well_staged seen (stage_runs (log (niriss_notebook w fs)))"
  unfolding niriss_notebook_def
  by (intro well_staged_seq well_staged_bind well_staged_loop)
    (simp_all add: no_runs_orderly [OF orderly_niriss_download]
      no_runs_orderly [OF orderly_niriss_mkdir] no_runs_orderly [OF orderly_niriss_correct]
      no_runs_orderly [OF orderly_niriss_calibrate]
      no_runs_orderly [OF orderly_for_each [OF orderly_implaneia_body]]
      no_runs [OF every_event_mono [OF conjunct1 [OF orderly_display [unfolded orderly_def]]]]
      log_ret stage_runs_Nil)

text \<open>
  C5. Each notebook makes its calls in the order of its cells. In the MRS notebook every
  download comes before every unpacking, these before every Detector1 run, these
  before every Spec2 run, then the source detection, the header-fixed copies, the
  association and last the Spec3 run. In the NIRISS notebook download and unpacking
  come first, then the output directory, then the Detector1 and Image2 runs, the
  bad-pixel correction, the fringe fitting, the calibration; and within the pipeline
  runs Image2 is run only on a product name of a file that Detector1 has already been
  run on. This holds for every run, whether it ends normally or with an exception.
\<close>

theorem phases_in_order:
  "sorted (map (\<lambda>ev. mrs_phase (fst ev)) (log (mrs_notebook w fs)))
   \<and> list_all (\<lambda>ev. mrs_phase (fst ev) \<le> 7) (log (mrs_notebook w fs))
   \<and> sorted (map (\<lambda>ev. niriss_phase (fst ev)) (log (niriss_notebook w fs)))
   \<and> list_all (\<lambda>ev. niriss_phase (fst ev) \<le> 5) (log (niriss_notebook w fs))
   \<and> well_staged [] (stage_runs (log (niriss_notebook w fs)))"
  using staged_mrs_notebook [of w] staged_niriss_notebook [of w]
    well_staged_niriss_notebook [of "[]" w fs]
  by (simp add: staged_def)

theorem phases_in_order_witness:
  "map (\<lambda>ev. mrs_phase (fst ev)) (log (mrs_notebook calm_world disk_mrs)) =
     [0, 0, 0, 1, 1, 1, 2, 2, 3, 3, 4, 5, 6, 6, 7]
   \<and> sorted (map (\<lambda>ev. mrs_phase (fst ev)) (log (mrs_notebook calm_world disk_mrs)))
   \<and> map (\<lambda>ev. niriss_phase (fst ev)) (log (niriss_notebook calm_world disk_niriss)) =
     [0, 0, 1, 2, 2, 2, 3, 4, 4, 4, 4, 4, 4, 5]
   \<and> sorted (map (\<lambda>ev. niriss_phase (fst ev)) (log (niriss_notebook calm_world disk_niriss)))
   \<and> stage_runs (log (niriss_notebook calm_world disk_niriss)) =
     [(Detector1Pipeline,
       ''niriss_ami_binary2_inflight/jw01093012001_03102_00001_nis_uncal.fits''),
      (Image2Pipeline, ''pipeline_calibrated_data/jw01093012001_03102_00001_nis_rate.fits''),
      (Image2Pipeline,
       ''pipeline_calibrated_data/jw01093012001_03102_00001_nis_rateints.fits'')]
   \<and> well_staged [] (stage_runs (log (niriss_notebook calm_world disk_niriss)))"
proof -
  have a: "map (\<lambda>ev. mrs_phase (fst ev)) (log (mrs_notebook calm_world disk_mrs)) =
     [0, 0, 0, 1, 1, 1, 2, 2, 3, 3, 4, 5, 6, 6, 7]" by code_simp
  have b: "map (\<lambda>ev. niriss_phase (fst ev)) (log (niriss_notebook calm_world disk_niriss)) =
     [0, 0, 1, 2, 2, 2, 3, 4, 4, 4, 4, 4, 4, 5]" by code_simp
  have c: "stage_runs (log (niriss_notebook calm_world disk_niriss)) =
     [(Detector1Pipeline,
       ''niriss_ami_binary2_inflight/jw01093012001_03102_00001_nis_uncal.fits''),
      (Image2Pipeline, ''pipeline_calibrated_data/jw01093012001_03102_00001_nis_rate.fits''),
      (Image2Pipeline,
       ''pipeline_calibrated_data/jw01093012001_03102_00001_nis_rateints.fits'')]"
    by code_simp
  show ?thesis
    using phases_in_order [of calm_world disk_mrs] phases_in_order [of calm_world disk_niriss]
      a b c
    by simp
qed

text \<open>
  C6. Nothing in the notebooks catches an exception or tries a call again. In every run
  of either notebook, a call that raised is the last call of the run and the run ends
  with the exception it raised; in a run that ends normally every call returned.
\<close>

theorem exceptions_propagate:
  "(\<forall>i < length (log (mrs_notebook w fs)). \<forall>e.
      snd (log (mrs_notebook w fs) ! i) = Raises e \<longrightarrow>
        Suc i = length (log (mrs_notebook w fs)) \<and> res (mrs_notebook w fs) = Inl e)
   \<and> (res (mrs_notebook w fs) = Inr () \<longrightarrow>
        list_all (\<lambda>ev. snd ev = Returned) (log (mrs_notebook w fs)))
   \<and> (\<forall>i < length (log (niriss_notebook w fs)). \<forall>e.
        snd (log (niriss_notebook w fs) ! i) = Raises e \<longrightarrow>
          Suc i = length (log (niriss_notebook w fs)) \<and> res (niriss_notebook w fs) = Inl e)
   \<and> (res (niriss_notebook w fs) = Inr () \<longrightarrow>
        list_all (\<lambda>ev. snd ev = Returned) (log (niriss_notebook w fs)))"
proof -
  have m: "uncaught (mrs_notebook w fs)"
    using orderly_mrs_notebook [of w] by (simp add: orderly_def safe_def)
  have n: "uncaught (niriss_notebook w fs)"
    using orderly_niriss_notebook [of w] by (simp add: orderly_def safe_def)
  show ?thesis
    using uncaught_index [OF m] uncaught_index [OF n] m n
    by (auto simp: uncaught_def)
qed

theorem exceptions_propagate_witness:
  "length (log (mrs_notebook stormy_world disk_mrs)) = 9
   \<and> log (mrs_notebook stormy_world disk_mrs) ! 8 =
       (PipelineRun Spec2Pipeline
          [(''straylight.skip'', PyBool True), (''extract_1d.skip'', PyBool True),
           (''output_file'', PyStr ''det_image_seq1_MIRIFUSHORT_12LONGexp1125354_rate'')]
          ''det_image_seq1_MIRIFUSHORT_12LONGexp1125354_rate.fits'',
        Raises (Raised ''CrdsError''))
   \<and> res (mrs_notebook stormy_world disk_mrs) = Inl (Raised ''CrdsError'')
   \<and> res (mrs_notebook calm_world disk_mrs) = Inr ()
   \<and> list_all (\<lambda>ev. snd ev = Returned) (log (mrs_notebook calm_world disk_mrs))
   \<and> res (niriss_notebook calm_world disk_niriss) = Inr ()
   \<and> list_all (\<lambda>ev. snd ev = Returned) (log (niriss_notebook calm_world disk_niriss))"
proof -
  have l: "length (log (mrs_notebook stormy_world disk_mrs)) = 9" by code_simp
  have e: "log (mrs_notebook stormy_world disk_mrs) ! 8 =
       (PipelineRun Spec2Pipeline
          [(''straylight.skip'', PyBool True), (''extract_1d.skip'', PyBool True),
           (''output_file'', PyStr ''det_image_seq1_MIRIFUSHORT_12LONGexp1125354_rate'')]
          ''det_image_seq1_MIRIFUSHORT_12LONGexp1125354_rate.fits'',
        Raises (Raised ''CrdsError''))" by code_simp
  have r: "res (mrs_notebook calm_world disk_mrs) = Inr ()" by code_simp
  have r': "res (niriss_notebook calm_world disk_niriss) = Inr ()" by code_simp
  have "res (mrs_notebook stormy_world disk_mrs) = Inl (Raised ''CrdsError'')"
    using conjunct1 [OF exceptions_propagate [of stormy_world disk_mrs], rule_format,
        of 8 "Raised ''CrdsError''"] l e
    by simp
  then show ?thesis
    using l e r r' exceptions_propagate [of calm_world disk_mrs]
      exceptions_propagate [of calm_world disk_niriss]
    by simp
qed





end
